theory Spec2Isabelle
  imports Main
begin

section \<open>Data model\<close>

text \<open>
  The repository holds two variants of one scraper: the spreadsheet variant (its
  definitions carry the suffix 1) that reads its URL list from a file, and the sitemap
  variant (suffix 2) that reads it from a sitemap and knows about target domains.
  A scraped record is the object literal built by \<open>scrapeTireData\<close>. The fields the
  control flow looks at (\<open>url\<close>, \<open>name\<close>, \<open>sizeNo\<close>, \<open>price\<close>), \<open>brand\<close>, \<open>setprice\<close>
  and the list of specification pairs are record fields; the remaining scalar text
  fields are kept by property name in \<open>rest\<close>. A property that a variant does not set
  is the empty string or the empty list.
\<close>

record tireData =
  url :: string
  name :: string
  brand :: string
  sizeNo :: string
  price :: string
  setprice :: string
  specifications :: "(string \<times> string) list"
  rest :: "(string \<times> string) list"

text \<open>
  The entries of the \<open>CONFIG\<close> object that the functions below read, file names without
  their directory. The spreadsheet variant has no \<open>maxRetriesForNonMatches\<close>,
  \<open>nonMatchFile\<close> and \<open>targetDomains\<close> and never reads them.
\<close>

record config =
  delayBetweenRequests :: nat
  maxRetries :: nat
  maxRetriesForNonMatches :: nat
  outputFile :: string
  jsonOutputFile :: string
  successFile :: string
  failedFile :: string
  nonMatchFile :: string
  targetDomains :: "string list"

definition CONFIG1 :: config where
  "CONFIG1 = \<lparr> delayBetweenRequests = 1000, maxRetries = 3, maxRetriesForNonMatches = 0,
     outputFile = ''tireData.xlsx'', jsonOutputFile = ''tireData.json'',
     successFile = ''success.json'', failedFile = ''failed.json'',
     nonMatchFile = [], targetDomains = [] \<rparr>"

definition CONFIG2 :: config where
  "CONFIG2 = \<lparr> delayBetweenRequests = 2000, maxRetries = 3, maxRetriesForNonMatches = 1,
     outputFile = ''tireData.xlsx'', jsonOutputFile = ''tireData.json'',
     successFile = ''success.json'', failedFile = ''failed.json'',
     nonMatchFile = ''nonmatch.json'', targetDomains = [''www.pitstoparabia.com''] \<rparr>"

text \<open>
  The part of the outside world the scraper reads and writes. \<open>ledgers\<close> maps a ledger
  file name to the JSON array it holds (\<open>None\<close>: the file is missing, empty or does not
  parse). \<open>jsonStore\<close> is the record store file, \<open>excelRows\<close> the records last mapped
  into the workbook. \<open>writeFails\<close> tells for which file names a write throws;
  \<open>requests\<close> logs every HTTP GET issued, \<open>sleeps\<close> every delay waited.
\<close>

record world =
  ledgers :: "string \<Rightarrow> string list option"
  jsonStore :: "tireData list option"
  jsonWrites :: nat
  excelRows :: "tireData list option"
  excelWrites :: nat
  writeFails :: "string \<Rightarrow> bool"
  requests :: "string list"
  sleeps :: "nat list"

section \<open>The ledger files\<close>

definition loadProcessedUrls :: "string \<Rightarrow> world \<Rightarrow> string list" where
  "loadProcessedUrls filename w =
     (case ledgers w filename of None \<Rightarrow> [] | Some content \<Rightarrow> content)"

definition saveProgress :: "string \<Rightarrow> string \<Rightarrow> world \<Rightarrow> world" where
  "saveProgress u filename w =
     (let processedUrls = loadProcessedUrls filename w in
      if u \<notin> set processedUrls then
        (if writeFails w filename then w
         else w\<lparr>ledgers := (ledgers w)(filename \<mapsto> processedUrls @ [u])\<rparr>)
      else w)"

text \<open>A run calls \<open>saveProgress\<close> many times, each with a URL and a ledger file.\<close>

fun saveProgressAll :: "(string \<times> string) list \<Rightarrow> world \<Rightarrow> world" where
  "saveProgressAll [] w = w"
| "saveProgressAll ((u, filename) # calls) w = saveProgressAll calls (saveProgress u filename w)"

definition world0 :: world where
  "world0 = \<lparr> ledgers = (\<lambda>_. None), jsonStore = None, jsonWrites = 0, excelRows = None,
     excelWrites = 0, writeFails = (\<lambda>_. False), requests = [], sleeps = [] \<rparr>"


section \<open>Text helpers\<close>

text \<open>
  JavaScript's \<open>a || b\<close> on strings: the first operand unless it is the empty string.
\<close>

definition js_or :: "string \<Rightarrow> string \<Rightarrow> string" where
  "js_or a b = (if a \<noteq> [] then a else b)"

definition is_digit :: "char \<Rightarrow> bool" where
  "is_digit c = (c \<in> set ''0123456789'')"

text \<open>
  White space, for \<open>trim\<close> and \<open>\s\<close>: the ASCII part of what JavaScript counts as
  white space.
\<close>

definition is_space :: "char \<Rightarrow> bool" where
  "is_space c = (c \<in> set [CHR '' '', CHR 0x09, CHR 0x0A, CHR 0x0B, CHR 0x0C, CHR 0x0D])"

definition trim :: "string \<Rightarrow> string" where
  "trim s = rev (dropWhile is_space (rev (dropWhile is_space s)))"

definition digit_val :: "char \<Rightarrow> nat" where
  "digit_val c = length (takeWhile (\<lambda>d. d \<noteq> c) ''0123456789'')"

definition nat_of_digits :: "string \<Rightarrow> nat" where
  "nat_of_digits ds = foldl (\<lambda>acc c. 10 * acc + digit_val c) 0 ds"

fun digits_of_nat :: "nat \<Rightarrow> string" where
  "digits_of_nat n =
     (if n < 10 then [''0123456789'' ! n]
      else digits_of_nat (n div 10) @ [''0123456789'' ! (n mod 10)])"

declare digits_of_nat.simps [simp del]

text \<open>
  \<open>s.replace(pat, rep)\<close> with a string pattern: the first occurrence of \<open>pat\<close> in \<open>s\<close>
  is replaced, and \<open>s\<close> is returned as it is when there is none.
\<close>

fun replace_first :: "string \<Rightarrow> string \<Rightarrow> string \<Rightarrow> string" where
  "replace_first pat rep [] = (if pat = [] then rep else [])"
| "replace_first pat rep (c # cs) =
     (if take (length pat) (c # cs) = pat then rep @ drop (length pat) (c # cs)
      else c # replace_first pat rep cs)"

section \<open>Derived fields of the sitemap variant\<close>

definition extractBrand :: "string \<Rightarrow> string" where
  "extractBrand productName = (if productName = [] then [] else takeWhile (\<lambda>c. c \<noteq> CHR '' '') productName)"

text \<open>
  \<open>sizeStr.match(/(\d+)\/(\d+)\s*R(\d+)/)\<close>. At a fixed start every quantifier of the
  pattern is followed by a character outside its own class, so the greedy match is the
  only one; the search tries the start positions from the left.
\<close>

definition size_match_at :: "string \<Rightarrow> (string \<times> string \<times> string) option" where
  "size_match_at s =
     (let width = takeWhile is_digit s; r1 = dropWhile is_digit s in
      if width = [] \<or> r1 = [] \<or> hd r1 \<noteq> CHR ''/'' then None
      else
        let ratio = takeWhile is_digit (tl r1);
            r2 = dropWhile is_space (dropWhile is_digit (tl r1))
        in if ratio = [] \<or> r2 = [] \<or> hd r2 \<noteq> CHR ''R'' then None
           else
             let rim = takeWhile is_digit (tl r2)
             in if rim = [] then None else Some (width, ratio, CHR ''R'' # rim))"

fun size_search :: "string \<Rightarrow> (string \<times> string \<times> string) option" where
  "size_search [] = None"
| "size_search (c # cs) =
     (case size_match_at (c # cs) of Some m \<Rightarrow> Some m | None \<Rightarrow> size_search cs)"

definition parseSizeComponents :: "string \<Rightarrow> string \<times> string \<times> string" where
  "parseSizeComponents sizeStr =
     (if sizeStr = [] then ([], [], [])
      else case size_search sizeStr of Some m \<Rightarrow> m | None \<Rightarrow> ([], [], []))"

text \<open>
  \<open>priceStr.match(/[\d,]+\.?\d*/)\<close>: the leftmost match starts at the first digit or
  comma; the run of digits and commas is maximal, then comes an optional dot, then a
  maximal run of digits.
\<close>

definition is_price_char :: "char \<Rightarrow> bool" where
  "is_price_char c = (is_digit c \<or> c = CHR '','')"

definition numericMatch :: "string \<Rightarrow> string option" where
  "numericMatch s =
     (let start = dropWhile (\<lambda>c. \<not> is_price_char c) s in
      if start = [] then None
      else
        let run = takeWhile is_price_char start;
            after = dropWhile is_price_char start;
            dot = (if after \<noteq> [] \<and> hd after = CHR ''.'' then ''.'' else []);
            after_dot = drop (length dot) after
        in Some (run @ dot @ takeWhile is_digit after_dot))"

text \<open>
  \<open>parseFloat\<close> on a string of digits with at most one dot (what is left of a match
  once its commas are removed): \<open>None\<close> is NaN, \<open>Some (m, k)\<close> the decimal number
  \<open>m / 10^k\<close>. Numbers are kept as exact decimals; JavaScript holds them as binary64
  doubles, which agree with the exact value on the integers and on every decimal that a
  double represents exactly.
\<close>

definition parseFloat :: "string \<Rightarrow> (nat \<times> nat) option" where
  "parseFloat s =
     (let int_part = takeWhile is_digit s;
          after = dropWhile is_digit s;
          frac_part = (if after \<noteq> [] \<and> hd after = CHR ''.''
                       then takeWhile is_digit (tl after) else [])
      in if int_part = [] \<and> frac_part = [] then None
         else Some (nat_of_digits (int_part @ frac_part), length frac_part))"

text \<open>
  \<open>x.toFixed(2)\<close> for \<open>x = m / 10^k\<close>: the sign, then the integer \<open>n\<close> nearest to
  \<open>|x| * 100\<close> (the larger one on a tie), written with at least three digits and a dot
  before the last two.
\<close>

definition toFixed2 :: "int \<times> nat \<Rightarrow> string" where
  "toFixed2 x =
     (let (m, k) = x;
          n = (nat \<bar>m\<bar> * 200 + 10 ^ k) div (2 * 10 ^ k);
          ds = digits_of_nat n;
          padded = replicate (3 - length ds) CHR ''0'' @ ds
      in (if m < 0 then ''-'' else []) @
         take (length padded - 2) padded @ ''.'' @ drop (length padded - 2) padded)"

text \<open>
  The body shared by \<open>calculateDiscountedPrice\<close> (offset 5) and
  \<open>calculateDiscountedsetPrice\<close> (offset 20), which differ in the offset only.
\<close>

definition discounted :: "nat \<Rightarrow> string \<Rightarrow> string" where
  "discounted off priceStr =
     (if priceStr = [] then []
      else case numericMatch priceStr of
        None \<Rightarrow> priceStr
      | Some matched \<Rightarrow>
          (case parseFloat (filter (\<lambda>c. c \<noteq> CHR '','') matched) of
             None \<Rightarrow> priceStr
           | Some (m, k) \<Rightarrow>
               let discountedPrice = (int m - int off * 10 ^ k, k);
                   currencyPart = replace_first matched [] priceStr
               in currencyPart @ toFixed2 discountedPrice))"

definition calculateDiscountedPrice :: "string \<Rightarrow> string" where
  "calculateDiscountedPrice priceStr = discounted 5 priceStr"

definition calculateDiscountedsetPrice :: "string \<Rightarrow> string" where
  "calculateDiscountedsetPrice priceStr = discounted 20 priceStr"

section \<open>The target-domain predicate\<close>

text \<open>
  \<open>new URL(url)\<close> is the platform's parser, not code of this repository: it is a
  parameter, a function that returns the parsed object or \<open>None\<close> where the constructor
  throws.
\<close>

record urlObj =
  protocol :: string
  hostname :: string
  pathname :: string

definition isTargetUrl :: "(string \<Rightarrow> urlObj option) \<Rightarrow> config \<Rightarrow> string \<Rightarrow> bool" where
  "isTargetUrl parse cfg u =
     (case parse u of
        None \<Rightarrow> False
      | Some urlObj \<Rightarrow> hostname urlObj \<in> set (targetDomains cfg))"

text \<open>
  One such parser, for the examples: absolute URLs \<open>scheme://host[:port][/path]\<close> with a
  lower-cased host, everything else rejected.
\<close>

definition lower_char :: "char \<Rightarrow> char" where
  "lower_char c =
     (case map_of (zip ''ABCDEFGHIJKLMNOPQRSTUVWXYZ'' ''abcdefghijklmnopqrstuvwxyz'') c of
        None \<Rightarrow> c | Some l \<Rightarrow> l)"

definition is_alpha :: "char \<Rightarrow> bool" where
  "is_alpha c = (c \<in> set ''abcdefghijklmnopqrstuvwxyzABCDEFGHIJKLMNOPQRSTUVWXYZ'')"

definition is_scheme_char :: "char \<Rightarrow> bool" where
  "is_scheme_char c =
     (c \<in> set ''abcdefghijklmnopqrstuvwxyzABCDEFGHIJKLMNOPQRSTUVWXYZ0123456789+-.'')"

definition simple_url_parse :: "string \<Rightarrow> urlObj option" where
  "simple_url_parse s =
     (let scheme = takeWhile (\<lambda>c. c \<noteq> CHR '':'') s;
          after = dropWhile (\<lambda>c. c \<noteq> CHR '':'') s
      in if scheme \<noteq> [] \<and> is_alpha (hd scheme) \<and> list_all is_scheme_char scheme
            \<and> take 3 after = ''://'' then
           let authority = takeWhile (\<lambda>c. c \<notin> set ''/?#'') (drop 3 after);
               host = takeWhile (\<lambda>c. c \<noteq> CHR '':'') authority;
               path = takeWhile (\<lambda>c. c \<notin> set ''?#'')
                        (dropWhile (\<lambda>c. c \<notin> set ''/?#'') (drop 3 after))
           in if host = [] then None
              else Some \<lparr> protocol = map lower_char scheme @ '':'',
                          hostname = map lower_char host,
                          pathname = (if path = [] then ''/'' else path) \<rparr>
         else None)"

section \<open>Pages and extraction\<close>

text \<open>
  A fetched page, as the selectors of \<open>scrapeTireData\<close> see it: for each selector chain
  the text it yields, already trimmed (empty when nothing matches).
  \<open>year_text\<close> is the untrimmed text of the "Year of manufacture" element,
  \<open>detail_rows\<close> the trimmed texts of the first and the last cell of every row of the
  detail table, and \<open>other_texts\<close> holds the remaining scalar fields by property name.
\<close>

record page =
  h1_title_wrapper :: string
  h1_product_name :: string
  h1_first :: string
  span_size_no :: string
  tire_size :: string
  product_size :: string
  product_price_span :: string
  price_final :: string
  regular_price :: string
  set_price :: string
  year_text :: string
  detail_rows :: "(string \<times> string) list"
  other_texts :: "(string \<times> string) list"

definition page_name :: "page \<Rightarrow> string" where
  "page_name pg = js_or (h1_title_wrapper pg) (js_or (h1_product_name pg) (h1_first pg))"

definition page_sizeNo :: "page \<Rightarrow> string" where
  "page_sizeNo pg = js_or (span_size_no pg) (js_or (tire_size pg) (product_size pg))"

definition page_price :: "page \<Rightarrow> string" where
  "page_price pg = js_or (product_price_span pg) (js_or (price_final pg) (regular_price pg))"

datatype error =
    RequestFailed
  | StatusRejected nat
  | HttpStatus nat
  | EssentialDataMissing
  | TypeError
  | IncompleteData

text \<open>
  The second element of \<open>text.split(":")\<close>: \<open>None\<close> (undefined) when the text has no
  colon.
\<close>

definition split_colon_1 :: "string \<Rightarrow> string option" where
  "split_colon_1 s =
     (let after = dropWhile (\<lambda>c. c \<noteq> CHR '':'') s in
      if after = [] then None else Some (takeWhile (\<lambda>c. c \<noteq> CHR '':'') (tl after)))"

text \<open>
  The spreadsheet variant calls \<open>.trim()\<close> on that element without a guard, so a page
  whose year text has no colon makes \<open>scrapeTireData\<close> throw a TypeError. It has no
  brand and no discount: the price is the text found.
\<close>

definition scrapeTireData1 :: "page \<Rightarrow> string \<Rightarrow> error + tireData" where
  "scrapeTireData1 pg u =
     (case split_colon_1 (year_text pg) of
        None \<Rightarrow> Inl TypeError
      | Some y \<Rightarrow>
          Inr \<lparr> url = u, name = page_name pg, brand = [], sizeNo = page_sizeNo pg,
                price = page_price pg, setprice = set_price pg,
                specifications =
                  filter (\<lambda>(label, value). label \<noteq> [] \<and> value \<noteq> []) (detail_rows pg),
                rest = (''manufactureYear'', trim y) # other_texts pg \<rparr>)"

text \<open>
  The sitemap variant guards the year with \<open>?.\<close>, derives the brand and the size
  components and stores discounted prices. It reads the rows of the detail table and
  keeps none of them.
\<close>

definition scrapeTireData2 :: "page \<Rightarrow> string \<Rightarrow> tireData" where
  "scrapeTireData2 pg u =
     (let (width, ratio, rim) = parseSizeComponents (page_sizeNo pg) in
      \<lparr> url = u, name = page_name pg, brand = extractBrand (page_name pg),
        sizeNo = page_sizeNo pg, price = calculateDiscountedPrice (page_price pg),
        setprice = calculateDiscountedsetPrice (set_price pg),
        specifications = [],
        rest = [(''width'', width), (''ratio'', ratio), (''rim'', rim)] @
               (case split_colon_1 (year_text pg) of
                  None \<Rightarrow> [] | Some y \<Rightarrow> [(''manufactureYear'', trim y)]) @
               other_texts pg \<rparr>)"

section \<open>Fetching\<close>

text \<open>
  The network answers the \<open>k\<close>-th GET of the run (counted from 0) for a URL either with
  a failure (connection error, timeout) or with a status and a page.
  \<open>axios.get\<close> itself throws on a status outside 2xx.
\<close>

datatype response = NetworkError | Response nat page

definition axios_get :: "(nat \<Rightarrow> string \<Rightarrow> response) \<Rightarrow> string \<Rightarrow> world
    \<Rightarrow> (error + nat \<times> page) \<times> world" where
  "axios_get net u w =
     (let w' = w\<lparr>requests := requests w @ [u]\<rparr> in
      case net (length (requests w)) u of
        NetworkError \<Rightarrow> (Inl RequestFailed, w')
      | Response status pg \<Rightarrow>
          if 200 \<le> status \<and> status < 300 then (Inr (status, pg), w')
          else (Inl (StatusRejected status), w'))"

definition sleep :: "nat \<Rightarrow> world \<Rightarrow> world" where
  "sleep ms w = w\<lparr>sleeps := sleeps w @ [ms]\<rparr>"

section \<open>scrapeUrl, sitemap variant\<close>

text \<open>The \<open>try\<close> block: \<open>Inr None\<close> is \<open>return null\<close>, \<open>Inl e\<close> a throw.\<close>

definition scrapeUrl2_try :: "(string \<Rightarrow> urlObj option) \<Rightarrow> config \<Rightarrow> (nat \<Rightarrow> string \<Rightarrow> response)
    \<Rightarrow> string \<Rightarrow> world \<Rightarrow> (error + tireData option) \<times> world" where
  "scrapeUrl2_try parse cfg net u w =
     (if \<not> isTargetUrl parse cfg u then (Inr None, saveProgress u (nonMatchFile cfg) w)
      else
        case axios_get net u w of
          (Inl e, w1) \<Rightarrow> (Inl e, w1)
        | (Inr (status, pg), w1) \<Rightarrow>
            if status \<noteq> 200 then (Inl (HttpStatus status), w1)
            else
              let tireData = scrapeTireData2 pg u in
              if name tireData = [] \<or> sizeNo tireData = [] then (Inl EssentialDataMissing, w1)
              else (Inr (Some tireData), saveProgress u (successFile cfg) w1))"

text \<open>The budget the \<open>catch\<close> block picks.\<close>

definition retryBudget2 :: "(string \<Rightarrow> urlObj option) \<Rightarrow> config \<Rightarrow> string \<Rightarrow> nat" where
  "retryBudget2 parse cfg u =
     (if isTargetUrl parse cfg u then maxRetries cfg else maxRetriesForNonMatches cfg)"

function scrapeUrl2 :: "(string \<Rightarrow> urlObj option) \<Rightarrow> config \<Rightarrow> (nat \<Rightarrow> string \<Rightarrow> response)
    \<Rightarrow> string \<Rightarrow> nat \<Rightarrow> world \<Rightarrow> (error + tireData option) \<times> world" where
  "scrapeUrl2 parse cfg net u retryCount w =
     (case scrapeUrl2_try parse cfg net u w of
        (Inr r, w1) \<Rightarrow> (Inr r, w1)
      | (Inl e, w1) \<Rightarrow>
          if retryCount < retryBudget2 parse cfg u then
            scrapeUrl2 parse cfg net u (retryCount + 1) (sleep (1000 * (retryCount + 1)) w1)
          else if isTargetUrl parse cfg u then (Inl e, saveProgress u (failedFile cfg) w1)
          else (Inl e, saveProgress u (nonMatchFile cfg) w1))"
  by pat_completeness auto
termination
  by (relation "measure (\<lambda>(parse, cfg, net, u, retryCount, w). retryBudget2 parse cfg u - retryCount)")
     auto

declare scrapeUrl2.simps [simp del]

text \<open>
  One URL of a batch in \<open>processUrlsInBatches\<close>: the \<open>then\<close> and \<open>catch\<close> handlers
  chained on \<open>scrapeUrl(url)\<close>.
\<close>

definition settleUrl2 :: "(string \<Rightarrow> urlObj option) \<Rightarrow> config \<Rightarrow> (nat \<Rightarrow> string \<Rightarrow> response)
    \<Rightarrow> string \<Rightarrow> world \<Rightarrow> tireData option \<times> world" where
  "settleUrl2 parse cfg net u w =
     (case scrapeUrl2 parse cfg net u 0 w of
        (Inr (Some result), w1) \<Rightarrow> (Some result, saveProgress u (successFile cfg) w1)
      | (Inr None, w1) \<Rightarrow> (None, saveProgress u (nonMatchFile cfg) w1)
      | (Inl e, w1) \<Rightarrow> (None, w1))"

text \<open>The filter of \<open>runScraper\<close> that leaves out every URL a ledger already holds.\<close>

definition urlsToProcess2 :: "config \<Rightarrow> string list \<Rightarrow> world \<Rightarrow> string list" where
  "urlsToProcess2 cfg urls w =
     filter (\<lambda>u. u \<notin> set (loadProcessedUrls (successFile cfg) w) \<and>
                  u \<notin> set (loadProcessedUrls (failedFile cfg) w) \<and>
                  u \<notin> set (loadProcessedUrls (nonMatchFile cfg) w)) urls"

section \<open>scrapeUrl, spreadsheet variant\<close>

definition scrapeUrl1_try :: "config \<Rightarrow> (nat \<Rightarrow> string \<Rightarrow> response) \<Rightarrow> string \<Rightarrow> world
    \<Rightarrow> (error + tireData) \<times> world" where
  "scrapeUrl1_try cfg net u w =
     (case axios_get net u w of
        (Inl e, w1) \<Rightarrow> (Inl e, w1)
      | (Inr (status, pg), w1) \<Rightarrow>
          if status \<noteq> 200 then (Inl (HttpStatus status), w1)
          else
            case scrapeTireData1 pg u of
              Inl e \<Rightarrow> (Inl e, w1)
            | Inr tireData \<Rightarrow>
                if name tireData = [] \<or> sizeNo tireData = [] then (Inl EssentialDataMissing, w1)
                else (Inr tireData, w1))"

function scrapeUrl1 :: "config \<Rightarrow> (nat \<Rightarrow> string \<Rightarrow> response) \<Rightarrow> string \<Rightarrow> nat \<Rightarrow> world
    \<Rightarrow> (error + tireData) \<times> world" where
  "scrapeUrl1 cfg net u retryCount w =
     (case scrapeUrl1_try cfg net u w of
        (Inr tireData, w1) \<Rightarrow> (Inr tireData, w1)
      | (Inl e, w1) \<Rightarrow>
          if retryCount < maxRetries cfg then
            scrapeUrl1 cfg net u (retryCount + 1) (sleep (2000 * (retryCount + 1)) w1)
          else (Inl e, w1))"
  by pat_completeness auto
termination
  by (relation "measure (\<lambda>(cfg, net, u, retryCount, w). maxRetries cfg - retryCount)") auto

declare scrapeUrl1.simps [simp del]

section \<open>The record store\<close>

definition loadExistingData :: "world \<Rightarrow> tireData list" where
  "loadExistingData w = (case jsonStore w of None \<Rightarrow> [] | Some content \<Rightarrow> content)"

text \<open>
  The merge loop of the spreadsheet variant: \<open>existingUrls\<close> is the \<open>Set\<close> of URLs seen,
  \<open>mergedData\<close> the array that grows.
\<close>

fun mergeData1 :: "string set \<Rightarrow> tireData list \<Rightarrow> tireData list \<Rightarrow> tireData list" where
  "mergeData1 existingUrls mergedData [] = mergedData"
| "mergeData1 existingUrls mergedData (newItem # newData) =
     (if url newItem \<notin> existingUrls
      then mergeData1 (insert (url newItem) existingUrls) (mergedData @ [newItem]) newData
      else mergeData1 existingUrls mergedData newData)"

text \<open>
  Writing the workbook: every merged record is mapped to a row; the rows are kept here
  as the records they come from. A failing write throws into the \<open>catch\<close> of
  \<open>saveData\<close>, which logs and returns.
\<close>

definition writeExcel :: "config \<Rightarrow> tireData list \<Rightarrow> world \<Rightarrow> world" where
  "writeExcel cfg mergedData w =
     (if writeFails w (outputFile cfg) then w
      else w\<lparr>excelRows := Some mergedData, excelWrites := excelWrites w + 1\<rparr>)"

definition saveData1 :: "config \<Rightarrow> tireData list \<Rightarrow> bool \<Rightarrow> world \<Rightarrow> world" where
  "saveData1 cfg newData finalSave w =
     (let existingData = loadExistingData w;
          mergedData = mergeData1 (set (map url existingData)) existingData newData
      in if writeFails w (jsonOutputFile cfg) then w
         else
           let w1 = w\<lparr>jsonStore := Some mergedData, jsonWrites := jsonWrites w + 1\<rparr> in
           if finalSave \<or> length mergedData mod 50 = 0 then writeExcel cfg mergedData w1
           else w1)"

text \<open>The sitemap variant filters the new records first and merges the valid ones.\<close>

definition validNewData2 :: "tireData list \<Rightarrow> tireData list" where
  "validNewData2 newData =
     filter (\<lambda>item. url item \<noteq> [] \<and> name item \<noteq> [] \<and> sizeNo item \<noteq> [] \<and> price item \<noteq> [])
       newData"

fun mergeData2 :: "string set \<Rightarrow> tireData list \<Rightarrow> tireData list \<Rightarrow> tireData list" where
  "mergeData2 existingUrls mergedData [] = mergedData"
| "mergeData2 existingUrls mergedData (newItem # newData) =
     (if url newItem \<noteq> [] \<and> url newItem \<notin> existingUrls
      then mergeData2 (insert (url newItem) existingUrls) (mergedData @ [newItem]) newData
      else mergeData2 existingUrls mergedData newData)"

definition saveData2 :: "config \<Rightarrow> tireData list \<Rightarrow> bool \<Rightarrow> world \<Rightarrow> world" where
  "saveData2 cfg newData finalSave w =
     (let validNewData = validNewData2 newData in
      if validNewData = [] \<and> \<not> finalSave then w
      else
        let existingData = loadExistingData w;
            mergedData = mergeData2 (set (map url existingData)) existingData validNewData
        in if writeFails w (jsonOutputFile cfg) then w
           else
             let w1 = w\<lparr>jsonStore := Some mergedData, jsonWrites := jsonWrites w + 1\<rparr> in
             if finalSave \<or> validNewData \<noteq> [] then writeExcel cfg mergedData w1
             else w1)"

text \<open>A sequence of flushes, each with its new records and its \<open>finalSave\<close> flag.\<close>

fun flushes1 :: "config \<Rightarrow> (tireData list \<times> bool) list \<Rightarrow> world \<Rightarrow> world" where
  "flushes1 cfg [] w = w"
| "flushes1 cfg ((newData, finalSave) # ops) w = flushes1 cfg ops (saveData1 cfg newData finalSave w)"

fun flushes2 :: "config \<Rightarrow> (tireData list \<times> bool) list \<Rightarrow> world \<Rightarrow> world" where
  "flushes2 cfg [] w = w"
| "flushes2 cfg ((newData, finalSave) # ops) w = flushes2 cfg ops (saveData2 cfg newData finalSave w)"

section \<open>runScraper, spreadsheet variant\<close>

text \<open>
  The \<open>while\<close> loop that \<open>runScraper\<close> runs for one URL. Each round calls
  \<open>scrapeUrl(url)\<close>, which retries on its own. \<open>saveProgress\<close> and \<open>saveData\<close>
  catch their own errors, so the \<open>catch\<close> block is entered from \<open>scrapeUrl\<close> or from
  the completeness check only.
\<close>

function attemptLoop1 :: "config \<Rightarrow> (nat \<Rightarrow> string \<Rightarrow> response) \<Rightarrow> string \<Rightarrow> nat \<Rightarrow> bool
    \<Rightarrow> tireData list \<Rightarrow> world \<Rightarrow> bool \<times> tireData list \<times> world" where
  "attemptLoop1 cfg net u attempts success newTireData w =
     (if attempts < maxRetries cfg \<and> \<not> success then
        (case scrapeUrl1 cfg net u 0 w of
           (Inr tireData, w1) \<Rightarrow>
             if name tireData = [] \<or> sizeNo tireData = [] then
               (if attempts + 1 \<ge> maxRetries cfg
                then attemptLoop1 cfg net u (attempts + 1) False newTireData
                       (saveProgress u (failedFile cfg) w1)
                else attemptLoop1 cfg net u (attempts + 1) False newTireData
                       (sleep (3000 * (attempts + 1)) w1))
             else
               attemptLoop1 cfg net u (attempts + 1) True (newTireData @ [tireData])
                 (saveData1 cfg (newTireData @ [tireData]) False
                    (saveProgress u (successFile cfg) w1))
         | (Inl e, w1) \<Rightarrow>
             if attempts + 1 \<ge> maxRetries cfg
             then attemptLoop1 cfg net u (attempts + 1) False newTireData
                    (saveProgress u (failedFile cfg) w1)
             else attemptLoop1 cfg net u (attempts + 1) False newTireData
                    (sleep (3000 * (attempts + 1)) w1))
      else (success, newTireData, w))"
  by pat_completeness auto
termination
  by (relation "measure (\<lambda>(cfg, net, u, attempts, success, newTireData, w). maxRetries cfg - attempts)")
     auto

declare attemptLoop1.simps [simp del]

text \<open>The \<open>for\<close> loop over the URLs to process, with the delay after a success.\<close>

fun urlLoop1 :: "config \<Rightarrow> (nat \<Rightarrow> string \<Rightarrow> response) \<Rightarrow> string list \<Rightarrow> tireData list \<Rightarrow> world
    \<Rightarrow> tireData list \<times> world" where
  "urlLoop1 cfg net [] newTireData w = (newTireData, w)"
| "urlLoop1 cfg net (u # us) newTireData w =
     (case attemptLoop1 cfg net u 0 False newTireData w of
        (success, newTireData', w1) \<Rightarrow>
          urlLoop1 cfg net us newTireData'
            (if success \<and> us \<noteq> [] then sleep (delayBetweenRequests cfg) w1 else w1))"

text \<open>\<open>[...new Set(urls)]\<close>: the first occurrence of every URL, in order.\<close>

definition uniqueUrls :: "string list \<Rightarrow> string list" where
  "uniqueUrls urls = foldl (\<lambda>seen u. if u \<in> set seen then seen else seen @ [u]) [] urls"

definition urlsToProcess1 :: "config \<Rightarrow> string list \<Rightarrow> world \<Rightarrow> string list" where
  "urlsToProcess1 cfg urls w =
     filter (\<lambda>u. u \<notin> set (loadProcessedUrls (successFile cfg) w) \<and>
                  u \<notin> set (loadProcessedUrls (failedFile cfg) w)) (uniqueUrls urls)"

text \<open>
  \<open>runScraper\<close> once \<open>loadUrls\<close> has returned the URL list: an empty list is the fatal
  error the function itself catches.
\<close>

definition runScraper1 :: "config \<Rightarrow> (nat \<Rightarrow> string \<Rightarrow> response) \<Rightarrow> string list \<Rightarrow> world \<Rightarrow> world" where
  "runScraper1 cfg net urls w =
     (if urls = [] then w
      else
        let todo = urlsToProcess1 cfg urls w in
        if todo = [] then w
        else case urlLoop1 cfg net todo [] w of
          (newTireData, w1) \<Rightarrow>
            if newTireData \<noteq> [] then saveData1 cfg newTireData True w1 else w1)"

section \<open>Example values\<close>

text \<open>Two complete records and one without a name, used to run the definitions.\<close>

definition tyreA :: tireData where
  "tyreA = \<lparr> url = ''https://www.pitstoparabia.com/a'', name = ''Pirelli P Zero'',
     brand = ''Pirelli'', sizeNo = ''205/55R16'', price = ''AED 95.00'', setprice = [],
     specifications = [], rest = [] \<rparr>"

definition tyreB :: tireData where
  "tyreB = \<lparr> url = ''https://www.pitstoparabia.com/b'', name = ''Dunlop SP'',
     brand = ''Dunlop'', sizeNo = ''195/65R15'', price = ''AED 120.00'', setprice = [],
     specifications = [], rest = [] \<rparr>"

definition tyreNoName :: tireData where
  "tyreNoName = \<lparr> url = ''https://www.pitstoparabia.com/c'', name = [],
     brand = [], sizeNo = ''195/65R15'', price = ''AED 120.00'', setprice = [],
     specifications = [], rest = [] \<rparr>"

text \<open>The completeness check of \<open>scrapeUrl\<close> and \<open>runScraper\<close>, seen from the passing side.\<close>

abbreviation essential :: "tireData \<Rightarrow> bool" where
  "essential r \<equiv> name r \<noteq> [] \<and> sizeNo r \<noteq> []"

text \<open>
  Pages: a full product page, one whose size selectors find nothing, one whose price
  selectors find nothing. Networks: one that serves a page to every request, one that
  never answers.
\<close>

definition pageA :: page where
  "pageA = \<lparr> h1_title_wrapper = ''Pirelli P Zero'', h1_product_name = [], h1_first = ''Pirelli P Zero'',
     span_size_no = ''205/55R16'', tire_size = [], product_size = [],
     product_price_span = ''AED 100.00'', price_final = [], regular_price = [],
     set_price = ''AED 380.00'', year_text = ''Year: 2024'',
     detail_rows = [(''Pattern'', ''P Zero''), (''Warranty'', [])], other_texts = [] \<rparr>"

definition pageNoSize :: page where
  "pageNoSize = pageA \<lparr> span_size_no := [] \<rparr>"

definition pageNoPrice :: page where
  "pageNoPrice = pageA \<lparr> product_price_span := [] \<rparr>"

definition serve :: "page \<Rightarrow> nat \<Rightarrow> string \<Rightarrow> response" where
  "serve pg k u = Response 200 pg"

definition offline :: "nat \<Rightarrow> string \<Rightarrow> response" where
  "offline k u = NetworkError"

definition targetA :: string where
  "targetA = ''https://www.pitstoparabia.com/a''"

section \<open>Ledger properties\<close>

lemma saveProgress_load:
  "loadProcessedUrls f (saveProgress u g w) =
     (if f = g \<and> u \<notin> set (loadProcessedUrls g w) \<and> \<not> writeFails w g
      then loadProcessedUrls g w @ [u] else loadProcessedUrls f w)"
  by (simp add: saveProgress_def loadProcessedUrls_def Let_def)

lemma saveProgress_writeFails [simp]: "writeFails (saveProgress u g w) = writeFails w"
  by (simp add: saveProgress_def Let_def)

lemma saveProgress_requests [simp]: "requests (saveProgress u g w) = requests w"
  by (simp add: saveProgress_def Let_def)

lemma saveProgress_sleeps [simp]: "sleeps (saveProgress u g w) = sleeps w"
  by (simp add: saveProgress_def Let_def)

lemma saveProgress_jsonStore [simp]: "jsonStore (saveProgress u g w) = jsonStore w"
  by (simp add: saveProgress_def Let_def)

lemma saveProgress_excel [simp]:
  "excelRows (saveProgress u g w) = excelRows w"
  "excelWrites (saveProgress u g w) = excelWrites w"
  "jsonWrites (saveProgress u g w) = jsonWrites w"
  by (simp_all add: saveProgress_def Let_def)

lemma saveProgress_extends:
  "\<exists>added. loadProcessedUrls f (saveProgress u g w) = loadProcessedUrls f w @ added \<and>
     distinct added \<and> set added \<inter> set (loadProcessedUrls f w) = {}"
  by (simp add: saveProgress_load)

lemma saveProgressAll_extends:
  "\<exists>added. loadProcessedUrls f (saveProgressAll calls w) = loadProcessedUrls f w @ added \<and>
     distinct added \<and> set added \<inter> set (loadProcessedUrls f w) = {}"
proof (induction calls arbitrary: w)
  case Nil
  show ?case by simp
next
  case (Cons c calls)
  obtain u g where c: "c = (u, g)" by (cases c)
  obtain a1 where a1: "loadProcessedUrls f (saveProgress u g w) = loadProcessedUrls f w @ a1"
    "distinct a1" "set a1 \<inter> set (loadProcessedUrls f w) = {}"
    using saveProgress_extends by blast
  obtain a2 where a2: "loadProcessedUrls f (saveProgressAll calls (saveProgress u g w))
       = loadProcessedUrls f (saveProgress u g w) @ a2"
    "distinct a2" "set a2 \<inter> set (loadProcessedUrls f (saveProgress u g w)) = {}"
    using Cons.IH by blast
  have "loadProcessedUrls f (saveProgressAll (c # calls) w) = loadProcessedUrls f w @ (a1 @ a2)"
    using c a1(1) a2(1) by simp
  moreover have "distinct (a1 @ a2)"
    using a1 a2 by auto
  moreover have "set (a1 @ a2) \<inter> set (loadProcessedUrls f w) = {}"
    using a1 a2 by auto
  ultimately show ?case by blast
qed

text \<open>
  C8 (as amended). For every prior content of a ledger file and every sequence of
  \<open>saveProgress\<close> calls, the prior sequence is a prefix of the resulting one (nothing is
  removed or reordered) and the entries added are pairwise distinct and were absent
  before; the resulting sequence is duplicate-free whenever the prior one was, as it is
  for ledgers that start from the empty array \<open>initializeFiles\<close> writes.
\<close>

theorem ledger_append_only:
  "(\<exists>added. loadProcessedUrls f (saveProgressAll calls w) = loadProcessedUrls f w @ added \<and>
      distinct added \<and> set added \<inter> set (loadProcessedUrls f w) = {}) \<and>
   set (loadProcessedUrls f w) \<subseteq> set (loadProcessedUrls f (saveProgressAll calls w)) \<and>
   (distinct (loadProcessedUrls f w) \<longrightarrow> distinct (loadProcessedUrls f (saveProgressAll calls w))) \<and>
   distinct (loadProcessedUrls f (saveProgressAll calls (w\<lparr>ledgers := (\<lambda>_. Some [])\<rparr>)))"
proof -
  obtain added where a: "loadProcessedUrls f (saveProgressAll calls w) = loadProcessedUrls f w @ added"
    "distinct added" "set added \<inter> set (loadProcessedUrls f w) = {}"
    using saveProgressAll_extends by blast
  let ?w0 = "w\<lparr>ledgers := (\<lambda>_. Some [])\<rparr>"
  obtain added0 where b: "loadProcessedUrls f (saveProgressAll calls ?w0) = loadProcessedUrls f ?w0 @ added0"
    "distinct added0"
    using saveProgressAll_extends by blast
  have "loadProcessedUrls f ?w0 = []" by (simp add: loadProcessedUrls_def)
  with b have "distinct (loadProcessedUrls f (saveProgressAll calls ?w0))" by simp
  with a show ?thesis by auto
qed

theorem ledger_append_only_witness:
  "distinct (loadProcessedUrls ''success.json'' (world0\<lparr>ledgers := (\<lambda>_. Some [''a'', ''b''])\<rparr>)) \<and>
   loadProcessedUrls ''success.json''
     (saveProgressAll [(''b'', ''success.json''), (''c'', ''success.json''), (''c'', ''failed.json'')]
        (world0\<lparr>ledgers := (\<lambda>_. Some [''a'', ''b''])\<rparr>)) = [''a'', ''b'', ''c'']"
  using ledger_append_only [of "''success.json''"
      "[(''b'', ''success.json''), (''c'', ''success.json''), (''c'', ''failed.json'')]"
      "world0\<lparr>ledgers := (\<lambda>_. Some [''a'', ''b''])\<rparr>"]
  by (simp add: saveProgress_def loadProcessedUrls_def world0_def)

text \<open>
  The claim as stated, for every prior state, fails: a ledger file that already holds a
  URL twice keeps both copies.
\<close>

theorem ledger_duplicate_counterexample:
  "\<not> distinct (loadProcessedUrls ''success.json''
      (saveProgressAll [(''c'', ''success.json'')]
         (world0\<lparr>ledgers := (\<lambda>_. Some [''a'', ''a''])\<rparr>)))"
  by (simp add: saveProgress_def loadProcessedUrls_def world0_def)

section \<open>The target-domain predicate, properties\<close>

lemma parse_example_accept:
  "simple_url_parse ''https://example.com/tyre/1'' =
     Some \<lparr> protocol = ''https:'', hostname = ''example.com'', pathname = ''/tyre/1'' \<rparr>"
  by (simp add: simple_url_parse_def is_alpha_def is_scheme_char_def lower_char_def)

lemma parse_example_other:
  "simple_url_parse ''https://other.com/x'' =
     Some \<lparr> protocol = ''https:'', hostname = ''other.com'', pathname = ''/x'' \<rparr>"
  by (simp add: simple_url_parse_def is_alpha_def is_scheme_char_def lower_char_def)

lemma parse_example_malformed: "simple_url_parse ''not a url'' = None"
  by (simp add: simple_url_parse_def is_alpha_def is_scheme_char_def)

text \<open>
  C6. \<open>isTargetUrl\<close> accepts a string exactly when it parses as a URL whose hostname
  is an entry of \<open>targetDomains\<close>, and rejects every string that does not parse. With
  the allow-list \<open>["example.com"]\<close>, \<open>https://example.com/tyre/1\<close> is accepted,
  \<open>https://other.com/x\<close> and a malformed string are rejected.
\<close>

theorem isTargetUrl_spec:
  "(isTargetUrl parse cfg u \<longleftrightarrow>
      (\<exists>urlObj. parse u = Some urlObj \<and> hostname urlObj \<in> set (targetDomains cfg))) \<and>
   (parse u = None \<longrightarrow> \<not> isTargetUrl parse cfg u) \<and>
   isTargetUrl simple_url_parse (cfg\<lparr>targetDomains := [''example.com'']\<rparr>)
     ''https://example.com/tyre/1'' \<and>
   \<not> isTargetUrl simple_url_parse (cfg\<lparr>targetDomains := [''example.com'']\<rparr>)
     ''https://other.com/x'' \<and>
   \<not> isTargetUrl simple_url_parse (cfg\<lparr>targetDomains := [''example.com'']\<rparr>) ''not a url''"
proof (intro conjI impI)
  show "isTargetUrl parse cfg u \<longleftrightarrow>
      (\<exists>urlObj. parse u = Some urlObj \<and> hostname urlObj \<in> set (targetDomains cfg))"
    by (cases "parse u") (simp_all add: isTargetUrl_def)
  show "\<not> isTargetUrl parse cfg u" if "parse u = None"
    using that by (simp add: isTargetUrl_def)
  show "isTargetUrl simple_url_parse (cfg\<lparr>targetDomains := [''example.com'']\<rparr>)
     ''https://example.com/tyre/1''"
    by (simp add: isTargetUrl_def parse_example_accept)
  show "\<not> isTargetUrl simple_url_parse (cfg\<lparr>targetDomains := [''example.com'']\<rparr>)
     ''https://other.com/x''"
    by (simp add: isTargetUrl_def parse_example_other)
  show "\<not> isTargetUrl simple_url_parse (cfg\<lparr>targetDomains := [''example.com'']\<rparr>) ''not a url''"
    by (simp add: isTargetUrl_def parse_example_malformed)
qed

text \<open>
  With the configured allow-list: a string that does not parse is rejected, a URL of the
  target host is accepted.
\<close>

theorem isTargetUrl_spec_witness:
  "simple_url_parse ''http//pitstoparabia'' = None \<and>
   \<not> isTargetUrl simple_url_parse CONFIG2 ''http//pitstoparabia'' \<and>
   isTargetUrl simple_url_parse CONFIG2 ''https://WWW.pitstoparabia.com/tyres/a?b=1''"
proof -
  have p: "simple_url_parse ''http//pitstoparabia'' = None"
    by (simp add: simple_url_parse_def is_alpha_def is_scheme_char_def)
  have q: "simple_url_parse ''https://WWW.pitstoparabia.com/tyres/a?b=1'' =
      Some \<lparr> protocol = ''https:'', hostname = ''www.pitstoparabia.com'', pathname = ''/tyres/a'' \<rparr>"
    by (simp add: simple_url_parse_def is_alpha_def is_scheme_char_def lower_char_def)
  have r: "hostname \<lparr> protocol = ''https:'', hostname = ''www.pitstoparabia.com'', pathname = ''/tyres/a'' \<rparr>
      \<in> set (targetDomains CONFIG2)"
    by (simp add: CONFIG2_def)
  from isTargetUrl_spec [of simple_url_parse CONFIG2 "''http//pitstoparabia''"] p
  have 1: "\<not> isTargetUrl simple_url_parse CONFIG2 ''http//pitstoparabia''" by blast
  from isTargetUrl_spec [of simple_url_parse CONFIG2 "''https://WWW.pitstoparabia.com/tyres/a?b=1''"] q r
  have 2: "isTargetUrl simple_url_parse CONFIG2 ''https://WWW.pitstoparabia.com/tyres/a?b=1''" by blast
  from p 1 2 show ?thesis by blast
qed

section \<open>The discounted price\<close>

lemma takeWhile_no_digit:
  "list_all (\<lambda>c. \<not> is_digit c) xs \<Longrightarrow> takeWhile is_digit xs = []"
  by (cases xs) auto

lemma no_digit_dropWhile:
  "list_all (\<lambda>c. \<not> is_digit c) xs \<Longrightarrow> list_all (\<lambda>c. \<not> is_digit c) (dropWhile P xs)"
  by (auto simp: list_all_iff dest: set_dropWhileD)

lemma no_digit_drop:
  "list_all (\<lambda>c. \<not> is_digit c) xs \<Longrightarrow> list_all (\<lambda>c. \<not> is_digit c) (drop n xs)"
  by (auto simp: list_all_iff dest: in_set_dropD)

lemma no_digit_run_commas:
  assumes "list_all (\<lambda>c. \<not> is_digit c) xs"
  shows "filter (\<lambda>c. c \<noteq> CHR '','') (takeWhile is_price_char xs) = []"
proof -
  have "\<forall>c \<in> set (takeWhile is_price_char xs). c = CHR '',''"
  proof
    fix c assume c: "c \<in> set (takeWhile is_price_char xs)"
    then have "is_price_char c" by (rule set_takeWhileD [THEN conjunct2])
    moreover have "c \<in> set xs" using c by (rule set_takeWhileD [THEN conjunct1])
    then have "\<not> is_digit c" using assms by (simp add: list_all_iff)
    ultimately show "c = CHR '',''" by (simp add: is_price_char_def)
  qed
  then show ?thesis by (simp add: filter_empty_conv)
qed

lemma parseFloat_no_digits:
  "parseFloat [] = None" "parseFloat ''.'' = None"
  by (simp_all add: parseFloat_def is_digit_def)

lemma discounted_no_digit:
  assumes nd: "list_all (\<lambda>c. \<not> is_digit c) s"
  shows "discounted off s = s"
proof (cases "numericMatch s")
  case None
  then show ?thesis by (simp add: discounted_def)
next
  case (Some matched)
  define start where "start = dropWhile (\<lambda>c. \<not> is_price_char c) s"
  define after where "after = dropWhile is_price_char start"
  define dot where "dot = (if after \<noteq> [] \<and> hd after = CHR ''.'' then ''.'' else [])"
  have m: "matched = takeWhile is_price_char start @ dot @ takeWhile is_digit (drop (length dot) after)"
  proof -
    have "numericMatch s = (if start = [] then None
        else Some (takeWhile is_price_char start @ dot @ takeWhile is_digit (drop (length dot) after)))"
      by (simp only: numericMatch_def Let_def start_def after_def dot_def)
    with Some show ?thesis by (cases "start = []") simp_all
  qed
  have nd_from: "list_all (\<lambda>c. \<not> is_digit c) start"
    unfolding start_def using nd by (rule no_digit_dropWhile)
  have nd_after: "list_all (\<lambda>c. \<not> is_digit c) after"
    unfolding after_def using nd_from by (rule no_digit_dropWhile)
  have "takeWhile is_digit (drop (length dot) after) = []"
    using nd_after by (intro takeWhile_no_digit no_digit_drop)
  then have "filter (\<lambda>c. c \<noteq> CHR '','') matched = filter (\<lambda>c. c \<noteq> CHR '','') dot"
    using m no_digit_run_commas [OF nd_from] by simp
  also have "\<dots> = dot" by (simp add: dot_def)
  finally have "parseFloat (filter (\<lambda>c. c \<noteq> CHR '','') matched) = None"
    by (simp add: dot_def parseFloat_no_digits)
  then show ?thesis using Some by (simp add: discounted_def)
qed

lemma digits_9500: "digits_of_nat 9500 = ''9500''"
  by (simp add: digits_of_nat.simps)

lemma discounted_example: "discounted 5 ''AED 100.00'' = ''AED 95.00''"
proof -
  have 1: "numericMatch ''AED 100.00'' = Some ''100.00''"
    by (simp add: numericMatch_def is_price_char_def is_digit_def)
  have 2: "parseFloat ''100.00'' = Some (10000, 2)"
    by (simp add: parseFloat_def is_digit_def nat_of_digits_def digit_val_def)
  have 3: "toFixed2 (9500, 2) = ''95.00''"
    by (simp add: toFixed2_def digits_9500)
  have 4: "replace_first ''100.00'' [] ''AED 100.00'' = ''AED ''"
    by simp
  show ?thesis by (simp add: discounted_def 1 2 3 4)
qed

text \<open>
  C7. \<open>calculateDiscountedPrice\<close>, whose offset is 5, maps \<open>"AED 100.00"\<close> to
  \<open>"AED 95.00"\<close>: the number is reduced by 5 and written with two decimals after the
  currency prefix. A price string with no digit in it is returned as it is, and the empty
  string gives the empty string.
\<close>

theorem calculateDiscountedPrice_spec:
  "calculateDiscountedPrice ''AED 100.00'' = ''AED 95.00'' \<and>
   (list_all (\<lambda>c. \<not> is_digit c) s \<longrightarrow> calculateDiscountedPrice s = s) \<and>
   calculateDiscountedPrice [] = []"
proof (intro conjI impI)
  show "calculateDiscountedPrice ''AED 100.00'' = ''AED 95.00''"
    unfolding calculateDiscountedPrice_def by (rule discounted_example)
  show "calculateDiscountedPrice s = s" if "list_all (\<lambda>c. \<not> is_digit c) s"
    unfolding calculateDiscountedPrice_def using that by (rule discounted_no_digit)
  show "calculateDiscountedPrice [] = []"
    by (simp add: calculateDiscountedPrice_def discounted_def)
qed

text \<open>
  A text with a comma and no digit: the pattern matches the comma, \<open>parseFloat\<close> gives
  NaN and the text comes back unchanged.
\<close>

theorem calculateDiscountedPrice_spec_witness:
  "list_all (\<lambda>c. \<not> is_digit c) ''Call for price, AED'' \<and>
   calculateDiscountedPrice ''Call for price, AED'' = ''Call for price, AED''"
proof -
  have nd: "list_all (\<lambda>c. \<not> is_digit c) ''Call for price, AED''"
    by (simp add: is_digit_def)
  from calculateDiscountedPrice_spec [of "''Call for price, AED''"] nd
  show ?thesis by blast
qed

section \<open>The record store, properties\<close>

lemma writeExcel_fields [simp]:
  "jsonStore (writeExcel cfg rows w) = jsonStore w"
  "jsonWrites (writeExcel cfg rows w) = jsonWrites w"
  "ledgers (writeExcel cfg rows w) = ledgers w"
  "writeFails (writeExcel cfg rows w) = writeFails w"
  "requests (writeExcel cfg rows w) = requests w"
  by (simp_all add: writeExcel_def)

lemma writeExcel_count:
  "excelWrites (writeExcel cfg rows w) = excelWrites w + (if writeFails w (outputFile cfg) then 0 else 1)"
  by (simp add: writeExcel_def)

lemma mergeData1_extends:
  "\<exists>added. mergeData1 S merged newData = merged @ added \<and> set added \<subseteq> set newData \<and>
     distinct (map url added) \<and> url ` set added \<inter> S = {}"
proof (induction newData arbitrary: S merged)
  case Nil
  show ?case by simp
next
  case (Cons n ns)
  show ?case
  proof (cases "url n \<in> S")
    case True
    with Cons.IH [of S merged] show ?thesis by auto
  next
    case False
    obtain added where a: "mergeData1 (insert (url n) S) (merged @ [n]) ns = (merged @ [n]) @ added"
      "set added \<subseteq> set ns" "distinct (map url added)" "url ` set added \<inter> insert (url n) S = {}"
      using Cons.IH [of "insert (url n) S" "merged @ [n]"] by blast
    have "mergeData1 S merged (n # ns) = merged @ (n # added)" using False a(1) by simp
    moreover have "set (n # added) \<subseteq> set (n # ns)" using a(2) by auto
    moreover have "distinct (map url (n # added))" using a(3,4) by auto
    moreover have "url ` set (n # added) \<inter> S = {}" using a(4) False by auto
    ultimately show ?thesis by blast
  qed
qed

lemma mergeData2_extends:
  "\<exists>added. mergeData2 S merged newData = merged @ added \<and> set added \<subseteq> set newData \<and>
     distinct (map url added) \<and> url ` set added \<inter> S = {}"
proof (induction newData arbitrary: S merged)
  case Nil
  show ?case by simp
next
  case (Cons n ns)
  show ?case
  proof (cases "url n \<noteq> [] \<and> url n \<notin> S")
    case False
    with Cons.IH [of S merged] show ?thesis by auto
  next
    case True
    obtain added where a: "mergeData2 (insert (url n) S) (merged @ [n]) ns = (merged @ [n]) @ added"
      "set added \<subseteq> set ns" "distinct (map url added)" "url ` set added \<inter> insert (url n) S = {}"
      using Cons.IH [of "insert (url n) S" "merged @ [n]"] by blast
    have "mergeData2 S merged (n # ns) = merged @ (n # added)" using True a(1) by simp
    moreover have "set (n # added) \<subseteq> set (n # ns)" using a(2) by auto
    moreover have "distinct (map url (n # added))" using a(3,4) by auto
    moreover have "url ` set (n # added) \<inter> S = {}" using a(4) True by auto
    ultimately show ?thesis by blast
  qed
qed

lemma saveData1_store:
  "loadExistingData (saveData1 cfg newData finalSave w) =
     (if writeFails w (jsonOutputFile cfg) then loadExistingData w
      else mergeData1 (set (map url (loadExistingData w))) (loadExistingData w) newData)"
  by (simp add: saveData1_def Let_def loadExistingData_def)

lemma saveData2_store:
  "loadExistingData (saveData2 cfg newData finalSave w) =
     (if writeFails w (jsonOutputFile cfg) \<or> (validNewData2 newData = [] \<and> \<not> finalSave)
      then loadExistingData w
      else mergeData2 (set (map url (loadExistingData w))) (loadExistingData w) (validNewData2 newData))"
  by (simp add: saveData2_def Let_def loadExistingData_def)

lemma saveData1_extends:
  "\<exists>added. loadExistingData (saveData1 cfg newData finalSave w) = loadExistingData w @ added \<and>
     set added \<subseteq> set newData \<and> distinct (map url added) \<and>
     url ` set added \<inter> url ` set (loadExistingData w) = {}"
proof (cases "writeFails w (jsonOutputFile cfg)")
  case True
  then show ?thesis by (simp add: saveData1_store)
next
  case False
  then show ?thesis
    using mergeData1_extends [of "set (map url (loadExistingData w))" "loadExistingData w" newData]
    by (simp add: saveData1_store)
qed

lemma saveData2_extends:
  "\<exists>added. loadExistingData (saveData2 cfg newData finalSave w) = loadExistingData w @ added \<and>
     set added \<subseteq> set (validNewData2 newData) \<and> distinct (map url added) \<and>
     url ` set added \<inter> url ` set (loadExistingData w) = {}"
proof (cases "writeFails w (jsonOutputFile cfg) \<or> (validNewData2 newData = [] \<and> \<not> finalSave)")
  case True
  then have "loadExistingData (saveData2 cfg newData finalSave w) = loadExistingData w"
    by (simp only: saveData2_store if_True)
  then show ?thesis by simp
next
  case False
  then have "loadExistingData (saveData2 cfg newData finalSave w) =
      mergeData2 (set (map url (loadExistingData w))) (loadExistingData w) (validNewData2 newData)"
    by (simp only: saveData2_store if_False)
  then show ?thesis
    using mergeData2_extends [of "set (map url (loadExistingData w))" "loadExistingData w"
        "validNewData2 newData"]
    by simp
qed

lemma extends_distinct:
  assumes "ys = xs @ added" "distinct (map url added)"
    "url ` set added \<inter> url ` set xs = {}" "distinct (map url xs)"
  shows "distinct (map url ys)"
  using assms by auto

lemma saveData1_distinct:
  "distinct (map url (loadExistingData w)) \<Longrightarrow>
   distinct (map url (loadExistingData (saveData1 cfg newData finalSave w)))"
  using saveData1_extends [of cfg newData finalSave w] extends_distinct by blast

lemma saveData2_distinct:
  "distinct (map url (loadExistingData w)) \<Longrightarrow>
   distinct (map url (loadExistingData (saveData2 cfg newData finalSave w)))"
  using saveData2_extends [of cfg newData finalSave w] extends_distinct by blast

lemma flushes1_distinct:
  "distinct (map url (loadExistingData w)) \<Longrightarrow>
   distinct (map url (loadExistingData (flushes1 cfg ops w)))"
proof (induction ops arbitrary: w)
  case Nil
  then show ?case by simp
next
  case (Cons a ops)
  obtain newData finalSave where a: "a = (newData, finalSave)" by (cases a)
  show ?case unfolding a flushes1.simps
    by (rule Cons.IH) (rule saveData1_distinct [OF Cons.prems])
qed

lemma flushes2_distinct:
  "distinct (map url (loadExistingData w)) \<Longrightarrow>
   distinct (map url (loadExistingData (flushes2 cfg ops w)))"
proof (induction ops arbitrary: w)
  case Nil
  then show ?case by simp
next
  case (Cons a ops)
  obtain newData finalSave where a: "a = (newData, finalSave)" by (cases a)
  show ?case unfolding a flushes2.simps
    by (rule Cons.IH) (rule saveData2_distinct [OF Cons.prems])
qed

lemma url_once_distinct:
  "distinct (map url xs) \<Longrightarrow> length (filter (\<lambda>r. url r = u) xs) \<le> 1"
proof (induction xs)
  case Nil
  show ?case by simp
next
  case (Cons x xs)
  have "filter (\<lambda>r. url r = u) xs = []" if "url x = u"
  proof -
    have "u \<notin> url ` set xs" using Cons.prems that by simp
    then have "\<forall>r \<in> set xs. url r \<noteq> u" by blast
    then show ?thesis by (simp add: filter_empty_conv)
  qed
  with Cons show ?case by auto
qed

text \<open>
  C4. In both variants a flush keeps the store it finds and appends records of the new
  data only, each with a URL that neither the store nor an earlier appended record has.
  So a store with pairwise distinct URLs keeps pairwise distinct URLs through every
  sequence of flushes, and no URL appears twice in it; a store that starts empty has
  pairwise distinct URLs after every sequence of flushes.
\<close>

theorem store_urls_distinct:
  "(distinct (map url (loadExistingData w)) \<longrightarrow>
      distinct (map url (loadExistingData (flushes1 cfg ops w))) \<and>
      distinct (map url (loadExistingData (flushes2 cfg ops w))) \<and>
      length (filter (\<lambda>r. url r = u) (loadExistingData (flushes1 cfg ops w))) \<le> 1 \<and>
      length (filter (\<lambda>r. url r = u) (loadExistingData (flushes2 cfg ops w))) \<le> 1) \<and>
   (\<exists>added. loadExistingData (saveData1 cfg newData finalSave w) = loadExistingData w @ added \<and>
      set added \<subseteq> set newData \<and> distinct (map url added) \<and>
      url ` set added \<inter> url ` set (loadExistingData w) = {}) \<and>
   (\<exists>added. loadExistingData (saveData2 cfg newData finalSave w) = loadExistingData w @ added \<and>
      set added \<subseteq> set newData \<and> distinct (map url added) \<and>
      url ` set added \<inter> url ` set (loadExistingData w) = {}) \<and>
   distinct (map url (loadExistingData (flushes1 cfg ops (w\<lparr>jsonStore := None\<rparr>)))) \<and>
   distinct (map url (loadExistingData (flushes2 cfg ops (w\<lparr>jsonStore := None\<rparr>))))"
proof (intro conjI impI)
  have fresh: "distinct (map url (loadExistingData (w\<lparr>jsonStore := None\<rparr>)))"
    by (simp add: loadExistingData_def)
  show "distinct (map url (loadExistingData (flushes1 cfg ops (w\<lparr>jsonStore := None\<rparr>))))"
    using fresh by (rule flushes1_distinct)
  show "distinct (map url (loadExistingData (flushes2 cfg ops (w\<lparr>jsonStore := None\<rparr>))))"
    using fresh by (rule flushes2_distinct)
next
  assume d: "distinct (map url (loadExistingData w))"
  show d1: "distinct (map url (loadExistingData (flushes1 cfg ops w)))"
    using d by (rule flushes1_distinct)
  show d2: "distinct (map url (loadExistingData (flushes2 cfg ops w)))"
    using d by (rule flushes2_distinct)
  show "length (filter (\<lambda>r. url r = u) (loadExistingData (flushes1 cfg ops w))) \<le> 1"
    using d1 by (rule url_once_distinct)
  show "length (filter (\<lambda>r. url r = u) (loadExistingData (flushes2 cfg ops w))) \<le> 1"
    using d2 by (rule url_once_distinct)
next
  show "\<exists>added. loadExistingData (saveData1 cfg newData finalSave w) = loadExistingData w @ added \<and>
      set added \<subseteq> set newData \<and> distinct (map url added) \<and>
      url ` set added \<inter> url ` set (loadExistingData w) = {}"
    by (rule saveData1_extends)
next
  obtain added where a: "loadExistingData (saveData2 cfg newData finalSave w) = loadExistingData w @ added"
     "set added \<subseteq> set (validNewData2 newData)" "distinct (map url added)"
     "url ` set added \<inter> url ` set (loadExistingData w) = {}"
    using saveData2_extends by blast
  have "set added \<subseteq> set newData" using a(2) by (auto simp: validNewData2_def)
  with a show "\<exists>added. loadExistingData (saveData2 cfg newData finalSave w) = loadExistingData w @ added \<and>
      set added \<subseteq> set newData \<and> distinct (map url added) \<and>
      url ` set added \<inter> url ` set (loadExistingData w) = {}"
    by blast
qed

lemma flush_example1:
  "loadExistingData (flushes1 CONFIG2 [([tyreA, tyreA], False), ([tyreB, tyreA], True)] world0)
     = [tyreA, tyreB]"
  by (simp add: saveData1_def writeExcel_def loadExistingData_def world0_def CONFIG2_def tyreA_def tyreB_def)

lemma flush_example2:
  "loadExistingData (flushes2 CONFIG2 [([tyreA, tyreA], False), ([tyreB, tyreA], True)] world0)
     = [tyreA, tyreB]"
  by (simp add: saveData2_def validNewData2_def writeExcel_def loadExistingData_def world0_def
      CONFIG2_def tyreA_def tyreB_def)

text \<open>
  Two flushes from the empty store, with a repeated record inside a flush and across
  the flushes.
\<close>

theorem store_urls_distinct_witness:
  "distinct (map url (loadExistingData world0)) \<and>
   loadExistingData (flushes1 CONFIG2 [([tyreA, tyreA], False), ([tyreB, tyreA], True)] world0)
     = [tyreA, tyreB] \<and>
   loadExistingData (flushes2 CONFIG2 [([tyreA, tyreA], False), ([tyreB, tyreA], True)] world0)
     = [tyreA, tyreB] \<and>
   distinct (map url (loadExistingData
     (flushes1 CONFIG2 [([tyreA, tyreA], False), ([tyreB, tyreA], True)] world0))) \<and>
   distinct (map url (loadExistingData
     (flushes2 CONFIG2 [([tyreA, tyreA], False), ([tyreB, tyreA], True)] world0)))"
proof -
  have d: "distinct (map url (loadExistingData world0))"
    by (simp add: loadExistingData_def world0_def)
  from store_urls_distinct [of world0 CONFIG2 "[([tyreA, tyreA], False), ([tyreB, tyreA], True)]"] d
  have "distinct (map url (loadExistingData
     (flushes1 CONFIG2 [([tyreA, tyreA], False), ([tyreB, tyreA], True)] world0)))"
    "distinct (map url (loadExistingData
     (flushes2 CONFIG2 [([tyreA, tyreA], False), ([tyreB, tyreA], True)] world0)))"
    by blast+
  with d flush_example1 flush_example2 show ?thesis by blast
qed

section \<open>Only complete records are stored\<close>

lemma sleep_fields [simp]:
  "jsonStore (sleep ms w) = jsonStore w"
  "ledgers (sleep ms w) = ledgers w"
  "writeFails (sleep ms w) = writeFails w"
  "requests (sleep ms w) = requests w"
  "excelWrites (sleep ms w) = excelWrites w"
  "jsonWrites (sleep ms w) = jsonWrites w"
  by (simp_all add: sleep_def)

lemma loadExistingData_cong: "jsonStore w' = jsonStore w \<Longrightarrow> loadExistingData w' = loadExistingData w"
  by (simp add: loadExistingData_def)

lemma axios_get_fields:
  "jsonStore (snd (axios_get net u w)) = jsonStore w"
  "ledgers (snd (axios_get net u w)) = ledgers w"
  "writeFails (snd (axios_get net u w)) = writeFails w"
  "requests (snd (axios_get net u w)) = requests w @ [u]"
  by (simp_all add: axios_get_def Let_def split: response.splits)

lemma scrapeUrl1_try_world: "snd (scrapeUrl1_try cfg net u w) = snd (axios_get net u w)"
  by (simp add: scrapeUrl1_try_def split: prod.splits sum.splits)

lemma scrapeUrl1_jsonStore: "jsonStore (snd (scrapeUrl1 cfg net u rc w)) = jsonStore w"
proof (induction cfg net u rc w rule: scrapeUrl1.induct)
  case (1 cfg net u rc w)
  obtain r w1 where t: "scrapeUrl1_try cfg net u w = (r, w1)" by (cases "scrapeUrl1_try cfg net u w")
  have w1: "jsonStore w1 = jsonStore w"
    using scrapeUrl1_try_world [of cfg net u w] t axios_get_fields(1) [of net u w] by simp
  show ?case
  proof (cases r)
    case (Inr td)
    then show ?thesis using t w1 by (simp add: scrapeUrl1.simps [of cfg net u rc w])
  next
    case (Inl e)
    show ?thesis
    proof (cases "rc < maxRetries cfg")
      case True
      have "jsonStore (snd (scrapeUrl1 cfg net u (rc + 1) (sleep (2000 * (rc + 1)) w1)))
          = jsonStore (sleep (2000 * (rc + 1)) w1)"
        using "1.IH" [OF t [symmetric] Inl True] .
      then show ?thesis using t Inl True w1 by (simp add: scrapeUrl1.simps [of cfg net u rc w])
    next
      case False
      then show ?thesis using t Inl w1 by (simp add: scrapeUrl1.simps [of cfg net u rc w])
    qed
  qed
qed

lemma saveData1_essential:
  assumes "list_all essential newData" "list_all essential (loadExistingData w)"
  shows "list_all essential (loadExistingData (saveData1 cfg newData finalSave w))"
proof -
  obtain added where a: "loadExistingData (saveData1 cfg newData finalSave w) = loadExistingData w @ added"
    "set added \<subseteq> set newData"
    using saveData1_extends by blast
  have "list_all essential added" using a(2) assms(1) by (auto simp: list_all_iff)
  with a(1) assms(2) show ?thesis by simp
qed

lemma attemptLoop1_essential:
  "list_all essential newTireData \<Longrightarrow> list_all essential (loadExistingData w) \<Longrightarrow>
   list_all essential (fst (snd (attemptLoop1 cfg net u attempts success newTireData w))) \<and>
   list_all essential (loadExistingData (snd (snd (attemptLoop1 cfg net u attempts success newTireData w))))"
proof (induction cfg net u attempts success newTireData w rule: attemptLoop1.induct)
  case (1 cfg net u attempts success newTireData w)
  show ?case
  proof (cases "attempts < maxRetries cfg \<and> \<not> success")
    case False
    then have "attemptLoop1 cfg net u attempts success newTireData w = (success, newTireData, w)"
      by (subst attemptLoop1.simps) (simp only: if_not_P if_False)
    then show ?thesis using "1.prems" by simp
  next
    case True
    obtain r w1 where s: "scrapeUrl1 cfg net u 0 w = (r, w1)" by (cases "scrapeUrl1 cfg net u 0 w")
    have w1: "loadExistingData w1 = loadExistingData w"
      using scrapeUrl1_jsonStore [of cfg net u 0 w] s by (simp add: loadExistingData_def)
    have fail: "list_all essential (loadExistingData (saveProgress u (failedFile cfg) w1))"
      "list_all essential (loadExistingData (sleep (3000 * (attempts + 1)) w1))"
      using "1.prems"(2) w1 by (simp_all add: loadExistingData_def)
    show ?thesis
    proof (cases r)
      case (Inl e)
      show ?thesis
      proof (cases "maxRetries cfg \<le> attempts + 1")
        case True
        from "1.IH"(1) [OF \<open>attempts < maxRetries cfg \<and> \<not> success\<close> s [symmetric] Inl True "1.prems"(1) fail(1)]
        show ?thesis using \<open>attempts < maxRetries cfg \<and> \<not> success\<close> s Inl True
          by (simp add: attemptLoop1.simps [of cfg net u attempts])
      next
        case False
        from "1.IH"(2) [OF \<open>attempts < maxRetries cfg \<and> \<not> success\<close> s [symmetric] Inl False "1.prems"(1) fail(2)]
        show ?thesis using \<open>attempts < maxRetries cfg \<and> \<not> success\<close> s Inl False
          by (simp add: attemptLoop1.simps [of cfg net u attempts])
      qed
    next
      case (Inr td)
      show ?thesis
      proof (cases "name td = [] \<or> sizeNo td = []")
        case incomplete: True
        show ?thesis
        proof (cases "maxRetries cfg \<le> attempts + 1")
          case True
          from "1.IH"(3) [OF \<open>attempts < maxRetries cfg \<and> \<not> success\<close> s [symmetric] Inr incomplete True "1.prems"(1) fail(1)]
          show ?thesis using \<open>attempts < maxRetries cfg \<and> \<not> success\<close> s Inr incomplete True
            by (simp add: attemptLoop1.simps [of cfg net u attempts])
        next
          case False
          from "1.IH"(4) [OF \<open>attempts < maxRetries cfg \<and> \<not> success\<close> s [symmetric] Inr incomplete False "1.prems"(1) fail(2)]
          show ?thesis using \<open>attempts < maxRetries cfg \<and> \<not> success\<close> s Inr incomplete False
            by (simp add: attemptLoop1.simps [of cfg net u attempts])
        qed
      next
        case complete: False
        have new: "list_all essential (newTireData @ [td])" using "1.prems"(1) complete by simp
        have "list_all essential (loadExistingData (saveProgress u (successFile cfg) w1))"
          using "1.prems"(2) w1 by (simp add: loadExistingData_def)
        then have st: "list_all essential (loadExistingData
            (saveData1 cfg (newTireData @ [td]) False (saveProgress u (successFile cfg) w1)))"
          using new by (intro saveData1_essential)
        from "1.IH"(5) [OF \<open>attempts < maxRetries cfg \<and> \<not> success\<close> s [symmetric] Inr complete new st]
        show ?thesis using \<open>attempts < maxRetries cfg \<and> \<not> success\<close> s Inr complete
          by (simp add: attemptLoop1.simps [of cfg net u attempts])
      qed
    qed
  qed
qed

lemma urlLoop1_essential:
  "list_all essential newTireData \<Longrightarrow> list_all essential (loadExistingData w) \<Longrightarrow>
   list_all essential (fst (urlLoop1 cfg net us newTireData w)) \<and>
   list_all essential (loadExistingData (snd (urlLoop1 cfg net us newTireData w)))"
proof (induction us arbitrary: newTireData w)
  case Nil
  then show ?case by simp
next
  case (Cons u us)
  obtain success new' w1 where a: "attemptLoop1 cfg net u 0 False newTireData w = (success, new', w1)"
    by (cases "attemptLoop1 cfg net u 0 False newTireData w")
  have inv: "list_all essential new'" "list_all essential (loadExistingData w1)"
    using attemptLoop1_essential [OF Cons.prems, of cfg net u 0 False] a by simp_all
  have "list_all essential (loadExistingData
      (if success \<and> us \<noteq> [] then sleep (delayBetweenRequests cfg) w1 else w1))"
    using inv(2) by (simp add: loadExistingData_def)
  from Cons.IH [OF inv(1) this] show ?case using a by simp
qed

lemma runScraper1_essential:
  assumes "list_all essential (loadExistingData w)"
  shows "list_all essential (loadExistingData (runScraper1 cfg net urls w))"
proof -
  obtain new w1 where l: "urlLoop1 cfg net (urlsToProcess1 cfg urls w) [] w = (new, w1)"
    by (cases "urlLoop1 cfg net (urlsToProcess1 cfg urls w) [] w")
  have inv: "list_all essential new" "list_all essential (loadExistingData w1)"
    using urlLoop1_essential [of "[]" w cfg net "urlsToProcess1 cfg urls w"] assms l by simp_all
  have "list_all essential (loadExistingData (saveData1 cfg new True w1))"
    using inv by (rule saveData1_essential)
  then show ?thesis using assms inv l by (simp add: runScraper1_def Let_def)
qed

lemma validNewData2_essential: "r \<in> set (validNewData2 newData) \<Longrightarrow> essential r"
  by (simp add: validNewData2_def)

lemma saveData2_new_essential:
  "r \<in> set (loadExistingData (saveData2 cfg newData finalSave w)) \<Longrightarrow>
   r \<in> set (loadExistingData w) \<or> essential r"
proof -
  assume r: "r \<in> set (loadExistingData (saveData2 cfg newData finalSave w))"
  obtain added where a: "loadExistingData (saveData2 cfg newData finalSave w) = loadExistingData w @ added"
    "set added \<subseteq> set (validNewData2 newData)"
    using saveData2_extends by blast
  from r a(1) have "r \<in> set (loadExistingData w) \<or> r \<in> set added" by simp
  then show ?thesis using a(2) validNewData2_essential by blast
qed

lemma flushes2_new_essential:
  "r \<in> set (loadExistingData (flushes2 cfg ops w)) \<Longrightarrow>
   r \<in> set (loadExistingData w) \<or> essential r"
proof (induction ops arbitrary: w)
  case Nil
  then show ?case by simp
next
  case (Cons a ops)
  obtain newData finalSave where a: "a = (newData, finalSave)" by (cases a)
  from Cons.prems have "r \<in> set (loadExistingData (flushes2 cfg ops (saveData2 cfg newData finalSave w)))"
    by (simp add: a)
  then have "r \<in> set (loadExistingData (saveData2 cfg newData finalSave w)) \<or> essential r"
    by (rule Cons.IH)
  then show ?case using saveData2_new_essential by blast
qed

text \<open>
  C5. A flush of the sitemap variant appends only records that pass its filter, so every
  record a sequence of flushes adds to the store has a non-empty name and a non-empty
  size, and a store whose records all have both keeps that property, as does a store
  that starts empty. The spreadsheet variant has no filter in \<open>saveData\<close>, but
  \<open>runScraper\<close> hands it only records that passed the completeness check, so a run
  keeps the property too.
\<close>

theorem incomplete_never_persisted:
  "(\<exists>added. loadExistingData (saveData2 cfg newData finalSave w) = loadExistingData w @ added \<and>
       list_all essential added) \<and>
   (r \<in> set (loadExistingData (flushes2 cfg ops w)) \<and> r \<notin> set (loadExistingData w)
       \<longrightarrow> essential r) \<and>
   (list_all essential (loadExistingData w) \<longrightarrow>
       list_all essential (loadExistingData (flushes2 cfg ops w)) \<and>
       list_all essential (loadExistingData (runScraper1 cfg net urls w))) \<and>
   list_all essential (loadExistingData (flushes2 cfg ops (w\<lparr>jsonStore := None\<rparr>))) \<and>
   list_all essential (loadExistingData (runScraper1 cfg net urls (w\<lparr>jsonStore := None\<rparr>)))"
proof (intro conjI impI)
  have fresh: "list_all essential (loadExistingData (w\<lparr>jsonStore := None\<rparr>))"
    by (simp add: loadExistingData_def)
  show "list_all essential (loadExistingData (runScraper1 cfg net urls (w\<lparr>jsonStore := None\<rparr>)))"
    using fresh by (rule runScraper1_essential)
  show "list_all essential (loadExistingData (flushes2 cfg ops (w\<lparr>jsonStore := None\<rparr>)))"
    unfolding list_all_iff
  proof
    fix x assume "x \<in> set (loadExistingData (flushes2 cfg ops (w\<lparr>jsonStore := None\<rparr>)))"
    then have "x \<in> set (loadExistingData (w\<lparr>jsonStore := None\<rparr>)) \<or> essential x"
      by (rule flushes2_new_essential)
    then show "essential x" by (simp add: loadExistingData_def)
  qed
next
  obtain added where a: "loadExistingData (saveData2 cfg newData finalSave w) = loadExistingData w @ added"
    "set added \<subseteq> set (validNewData2 newData)"
    using saveData2_extends by blast
  have "list_all essential added"
    using a(2) validNewData2_essential by (auto simp: list_all_iff)
  with a(1) show "\<exists>added. loadExistingData (saveData2 cfg newData finalSave w) = loadExistingData w @ added \<and>
       list_all essential added" by blast
next
  assume "r \<in> set (loadExistingData (flushes2 cfg ops w)) \<and> r \<notin> set (loadExistingData w)"
  then have e: "essential r" using flushes2_new_essential by blast
  from e show "name r \<noteq> []" ..
  from e show "sizeNo r \<noteq> []" ..
next
  assume v: "list_all essential (loadExistingData w)"
  show "list_all essential (loadExistingData (flushes2 cfg ops w))"
    unfolding list_all_iff
  proof
    fix x assume "x \<in> set (loadExistingData (flushes2 cfg ops w))"
    then have "x \<in> set (loadExistingData w) \<or> essential x" by (rule flushes2_new_essential)
    then show "essential x" using v by (auto simp: list_all_iff)
  qed
  show "list_all essential (loadExistingData (runScraper1 cfg net urls w))"
    using v by (rule runScraper1_essential)
qed

text \<open>
  A record without a name is offered twice, once beside a complete record and once in a
  final flush: only the complete record is stored.
\<close>

theorem incomplete_never_persisted_witness:
  "list_all essential (loadExistingData world0) \<and>
   tyreNoName \<notin> set (loadExistingData world0) \<and>
   loadExistingData (flushes2 CONFIG2 [([tyreNoName, tyreA], False), ([tyreNoName], True)] world0)
     = [tyreA] \<and>
   list_all essential
     (loadExistingData (flushes2 CONFIG2 [([tyreNoName, tyreA], False), ([tyreNoName], True)] world0))"
proof -
  have v: "list_all essential (loadExistingData world0)"
    by (simp add: loadExistingData_def world0_def)
  have n: "tyreNoName \<notin> set (loadExistingData world0)"
    by (simp add: loadExistingData_def world0_def)
  have f: "loadExistingData
      (flushes2 CONFIG2 [([tyreNoName, tyreA], False), ([tyreNoName], True)] world0) = [tyreA]"
    by (simp add: saveData2_def validNewData2_def writeExcel_def loadExistingData_def world0_def
        CONFIG2_def tyreA_def tyreNoName_def Let_def)
  from incomplete_never_persisted [of CONFIG2 "[]" False world0 tyreNoName
      "[([tyreNoName, tyreA], False), ([tyreNoName], True)]" "\<lambda>_ _. NetworkError" "[]"] v
  have "list_all essential
     (loadExistingData (flushes2 CONFIG2 [([tyreNoName, tyreA], False), ([tyreNoName], True)] world0))"
    by blast
  with v n f show ?thesis by blast
qed

section \<open>Regenerating the workbook\<close>

lemma saveData1_counts:
  assumes "\<not> writeFails w (jsonOutputFile cfg)" "\<not> writeFails w (outputFile cfg)"
  shows "jsonWrites (saveData1 cfg newData finalSave w) = jsonWrites w + 1"
    and "excelWrites (saveData1 cfg newData finalSave w) = excelWrites w +
      (if finalSave \<or> length (loadExistingData (saveData1 cfg newData finalSave w)) mod 50 = 0
       then 1 else 0)"
proof -
  define merged where
    "merged = mergeData1 (set (map url (loadExistingData w))) (loadExistingData w) newData"
  have st: "loadExistingData (saveData1 cfg newData finalSave w) = merged"
    using assms(1) by (simp add: saveData1_store merged_def)
  have u: "saveData1 cfg newData finalSave w =
      (if finalSave \<or> length merged mod 50 = 0
       then writeExcel cfg merged (w\<lparr>jsonStore := Some merged, jsonWrites := jsonWrites w + 1\<rparr>)
       else w\<lparr>jsonStore := Some merged, jsonWrites := jsonWrites w + 1\<rparr>)"
    using assms(1) by (simp add: saveData1_def Let_def merged_def)
  show "jsonWrites (saveData1 cfg newData finalSave w) = jsonWrites w + 1"
    unfolding u by simp
  show "excelWrites (saveData1 cfg newData finalSave w) = excelWrites w +
      (if finalSave \<or> length (loadExistingData (saveData1 cfg newData finalSave w)) mod 50 = 0
       then 1 else 0)"
    unfolding st unfolding u using assms(2) by (simp add: writeExcel_count)
qed

lemma saveData2_counts:
  assumes "\<not> writeFails w (jsonOutputFile cfg)" "\<not> writeFails w (outputFile cfg)"
  shows "jsonWrites (saveData2 cfg newData finalSave w) = jsonWrites w +
      (if finalSave \<or> validNewData2 newData \<noteq> [] then 1 else 0)"
    and "excelWrites (saveData2 cfg newData finalSave w) = excelWrites w +
      (if finalSave \<or> validNewData2 newData \<noteq> [] then 1 else 0)"
    and "\<not> finalSave \<and> validNewData2 newData = [] \<longrightarrow> saveData2 cfg newData finalSave w = w"
proof -
  define merged where
    "merged = mergeData2 (set (map url (loadExistingData w))) (loadExistingData w)
       (validNewData2 newData)"
  have u: "saveData2 cfg newData finalSave w =
      (if finalSave \<or> validNewData2 newData \<noteq> []
       then writeExcel cfg merged (w\<lparr>jsonStore := Some merged, jsonWrites := jsonWrites w + 1\<rparr>)
       else w)"
    using assms(1) by (simp add: saveData2_def Let_def merged_def)
  show "jsonWrites (saveData2 cfg newData finalSave w) = jsonWrites w +
      (if finalSave \<or> validNewData2 newData \<noteq> [] then 1 else 0)"
    unfolding u by simp
  show "excelWrites (saveData2 cfg newData finalSave w) = excelWrites w +
      (if finalSave \<or> validNewData2 newData \<noteq> [] then 1 else 0)"
    unfolding u using assms(2) by (simp add: writeExcel_count)
  show "\<not> finalSave \<and> validNewData2 newData = [] \<longrightarrow> saveData2 cfg newData finalSave w = w"
    unfolding u by simp
qed

text \<open>
  C3 (as amended). When the writes succeed: the spreadsheet variant writes the JSON store
  on every flush and regenerates the workbook exactly when the flush is final or the
  merged total is a multiple of 50. The sitemap variant writes the JSON store and
  regenerates the workbook exactly when the flush is final or holds at least one valid
  new record, whatever the merged total; a flush that is neither writes nothing.
\<close>

theorem excel_regeneration:
  assumes "\<not> writeFails w (jsonOutputFile cfg)" "\<not> writeFails w (outputFile cfg)"
  shows "jsonWrites (saveData1 cfg newData finalSave w) = jsonWrites w + 1 \<and>
    excelWrites (saveData1 cfg newData finalSave w) = excelWrites w +
      (if finalSave \<or> length (loadExistingData (saveData1 cfg newData finalSave w)) mod 50 = 0
       then 1 else 0) \<and>
    jsonWrites (saveData2 cfg newData finalSave w) = jsonWrites w +
      (if finalSave \<or> validNewData2 newData \<noteq> [] then 1 else 0) \<and>
    excelWrites (saveData2 cfg newData finalSave w) = excelWrites w +
      (if finalSave \<or> validNewData2 newData \<noteq> [] then 1 else 0) \<and>
    (\<not> finalSave \<and> validNewData2 newData = [] \<longrightarrow> saveData2 cfg newData finalSave w = w)"
  using saveData1_counts [OF assms, where newData = newData and finalSave = finalSave]
    saveData2_counts [OF assms, where newData = newData and finalSave = finalSave]
  by blast

text \<open>
  One complete record flushed into the empty store, not as a final save: the spreadsheet
  variant writes the JSON store only, the sitemap variant also regenerates the workbook;
  a flush of one invalid record writes nothing in the sitemap variant.
\<close>

theorem excel_regeneration_witness:
  "\<not> writeFails world0 (jsonOutputFile CONFIG2) \<and> \<not> writeFails world0 (outputFile CONFIG2) \<and>
   length (loadExistingData (saveData1 CONFIG2 [tyreA] False world0)) = 1 \<and>
   jsonWrites (saveData1 CONFIG2 [tyreA] False world0) = 1 \<and>
   excelWrites (saveData1 CONFIG2 [tyreA] False world0) = 0 \<and>
   jsonWrites (saveData2 CONFIG2 [tyreNoName] False world0) = 0 \<and>
   excelWrites (saveData2 CONFIG2 [tyreA] False world0) = 1"
proof -
  have a: "\<not> writeFails world0 (jsonOutputFile CONFIG2)" "\<not> writeFails world0 (outputFile CONFIG2)"
    by (simp_all add: world0_def)
  have l: "loadExistingData (saveData1 CONFIG2 [tyreA] False world0) = [tyreA]"
    by (simp add: saveData1_def loadExistingData_def world0_def)
  have v: "validNewData2 [tyreA] = [tyreA]"
    by (simp add: validNewData2_def tyreA_def)
  have z: "jsonWrites world0 = 0" "excelWrites world0 = 0" by (simp_all add: world0_def)
  have n: "validNewData2 [tyreNoName] = []"
    by (simp add: validNewData2_def tyreNoName_def)
  from excel_regeneration [OF a, where newData = "[tyreA]" and finalSave = False] l v z
  have 1: "jsonWrites (saveData1 CONFIG2 [tyreA] False world0) = 1"
    "excelWrites (saveData1 CONFIG2 [tyreA] False world0) = 0"
    "excelWrites (saveData2 CONFIG2 [tyreA] False world0) = 1"
    by simp_all
  from excel_regeneration [OF a, where newData = "[tyreNoName]" and finalSave = False] n z
  have 2: "jsonWrites (saveData2 CONFIG2 [tyreNoName] False world0) = 0" by simp
  from a l 1 2 show ?thesis by simp
qed

text \<open>
  The claim as stated fails in the sitemap variant: a flush that is not final and brings
  the total to 1 regenerates the workbook, and a flush that is not final and leaves the
  total at 1, with no valid new record, does not write the JSON store.
\<close>

theorem excel_every_50_counterexample:
  "excelWrites world0 = 0 \<and>
   excelWrites (saveData2 CONFIG2 [tyreA] False world0) = 1 \<and>
   length (loadExistingData (saveData2 CONFIG2 [tyreA] False world0)) mod 50 = 1 \<and>
   length (loadExistingData (saveData2 CONFIG2 [tyreNoName] False (world0\<lparr>jsonStore := Some [tyreB]\<rparr>)))
     mod 50 = 1 \<and>
   jsonWrites (saveData2 CONFIG2 [tyreNoName] False (world0\<lparr>jsonStore := Some [tyreB]\<rparr>)) = 0"
  by (simp add: saveData2_def validNewData2_def writeExcel_def loadExistingData_def world0_def
      CONFIG2_def tyreA_def tyreNoName_def Let_def)

section \<open>URLs outside the target domains\<close>

lemma scrapeUrl2_try_nontarget:
  "\<not> isTargetUrl parse cfg u \<Longrightarrow>
   scrapeUrl2_try parse cfg net u w = (Inr None, saveProgress u (nonMatchFile cfg) w)"
  by (simp add: scrapeUrl2_try_def)

lemma scrapeUrl2_nontarget:
  "\<not> isTargetUrl parse cfg u \<Longrightarrow>
   scrapeUrl2 parse cfg net u rc w = (Inr None, saveProgress u (nonMatchFile cfg) w)"
  by (simp add: scrapeUrl2.simps [of parse cfg net u rc w] scrapeUrl2_try_nontarget)

lemma saveProgress_idem: "saveProgress u f (saveProgress u f w) = saveProgress u f w"
proof (cases "u \<in> set (loadProcessedUrls f w) \<or> writeFails w f")
  case True
  then have "saveProgress u f w = w" by (auto simp: saveProgress_def Let_def)
  then show ?thesis by simp
next
  case False
  then have "u \<in> set (loadProcessedUrls f (saveProgress u f w))"
    by (simp add: saveProgress_load)
  then show ?thesis by (simp add: saveProgress_def [of u f "saveProgress u f w"] Let_def)
qed

lemma settleUrl2_nontarget:
  "\<not> isTargetUrl parse cfg u \<Longrightarrow>
   settleUrl2 parse cfg net u w = (None, saveProgress u (nonMatchFile cfg) w)"
  by (simp add: settleUrl2_def scrapeUrl2_nontarget saveProgress_idem)

lemma isTargetUrl_budget_irrelevant [simp]:
  "isTargetUrl parse (cfg\<lparr>maxRetriesForNonMatches := k\<rparr>) u = isTargetUrl parse cfg u"
  by (simp add: isTargetUrl_def split: option.splits)

lemma scrapeUrl2_try_budget_irrelevant [simp]:
  "scrapeUrl2_try parse (cfg\<lparr>maxRetriesForNonMatches := k\<rparr>) net u w = scrapeUrl2_try parse cfg net u w"
  by (simp add: scrapeUrl2_try_def Let_def split: prod.splits sum.splits)

lemma retryBudget2_target:
  "isTargetUrl parse cfg u \<Longrightarrow> retryBudget2 parse (cfg\<lparr>maxRetriesForNonMatches := k\<rparr>) u = maxRetries cfg"
  "isTargetUrl parse cfg u \<Longrightarrow> retryBudget2 parse cfg u = maxRetries cfg"
  by (simp_all add: retryBudget2_def)

lemma scrapeUrl2_budget_irrelevant_target:
  assumes t: "isTargetUrl parse cfg u"
  shows "scrapeUrl2 parse (cfg\<lparr>maxRetriesForNonMatches := k\<rparr>) net u rc w = scrapeUrl2 parse cfg net u rc w"
proof (induction "maxRetries cfg - rc" arbitrary: rc w)
  case 0
  then have "\<not> rc < maxRetries cfg" by simp
  then show ?case
    using t by (simp add: scrapeUrl2.simps [of _ _ net u rc w] retryBudget2_target
        split: prod.splits sum.splits)
next
  case (Suc n)
  then have lt: "rc < maxRetries cfg" and n: "n = maxRetries cfg - (rc + 1)" by simp_all
  show ?case
    using t lt Suc.hyps(1) [OF n]
    by (simp add: scrapeUrl2.simps [of _ _ net u rc w] retryBudget2_target
        split: prod.splits sum.splits)
qed

lemma scrapeUrl2_budget_irrelevant:
  "scrapeUrl2 parse (cfg\<lparr>maxRetriesForNonMatches := k\<rparr>) net u rc w = scrapeUrl2 parse cfg net u rc w"
proof (cases "isTargetUrl parse cfg u")
  case True
  then show ?thesis by (rule scrapeUrl2_budget_irrelevant_target)
next
  case False
  then show ?thesis by (simp add: scrapeUrl2_nontarget)
qed

text \<open>
  C9. For a URL that \<open>isTargetUrl\<close> rejects, \<open>scrapeUrl\<close> of the sitemap variant marks
  it in the non-matching ledger and returns \<open>null\<close>, whatever the retry count, and the
  batch handler returns no record: no request is issued and no delay is waited. The
  \<open>try\<close> block throws for target URLs only, so the \<open>catch\<close> block always picks
  \<open>maxRetries\<close>, and the result of \<open>scrapeUrl\<close> does not depend on
  \<open>maxRetriesForNonMatches\<close>.
\<close>

theorem nontarget_no_request:
  "(\<not> isTargetUrl parse cfg u \<longrightarrow>
      scrapeUrl2 parse cfg net u retryCount w = (Inr None, saveProgress u (nonMatchFile cfg) w) \<and>
      settleUrl2 parse cfg net u w = (None, saveProgress u (nonMatchFile cfg) w) \<and>
      requests (snd (scrapeUrl2 parse cfg net u retryCount w)) = requests w \<and>
      requests (snd (settleUrl2 parse cfg net u w)) = requests w \<and>
      sleeps (snd (settleUrl2 parse cfg net u w)) = sleeps w \<and>
      (\<not> writeFails w (nonMatchFile cfg) \<longrightarrow>
         u \<in> set (loadProcessedUrls (nonMatchFile cfg) (snd (settleUrl2 parse cfg net u w))))) \<and>
   (isl (fst (scrapeUrl2_try parse cfg net u w)) \<longrightarrow>
      isTargetUrl parse cfg u \<and> retryBudget2 parse cfg u = maxRetries cfg) \<and>
   scrapeUrl2 parse (cfg\<lparr>maxRetriesForNonMatches := k\<rparr>) net u retryCount w =
     scrapeUrl2 parse cfg net u retryCount w"
proof (intro conjI impI)
  assume thrown: "isl (fst (scrapeUrl2_try parse cfg net u w))"
  show t: "isTargetUrl parse cfg u"
  proof (rule ccontr)
    assume "\<not> isTargetUrl parse cfg u"
    then have "fst (scrapeUrl2_try parse cfg net u w) = Inr None"
      by (simp add: scrapeUrl2_try_nontarget)
    with thrown show False by simp
  qed
  show "retryBudget2 parse cfg u = maxRetries cfg"
    using t by (simp add: retryBudget2_def)
next
  show "scrapeUrl2 parse (cfg\<lparr>maxRetriesForNonMatches := k\<rparr>) net u retryCount w =
     scrapeUrl2 parse cfg net u retryCount w"
    by (rule scrapeUrl2_budget_irrelevant)
next
  assume nt: "\<not> isTargetUrl parse cfg u"
  show s: "scrapeUrl2 parse cfg net u retryCount w = (Inr None, saveProgress u (nonMatchFile cfg) w)"
    using nt by (rule scrapeUrl2_nontarget)
  show t: "settleUrl2 parse cfg net u w = (None, saveProgress u (nonMatchFile cfg) w)"
    using nt by (rule settleUrl2_nontarget)
  show "requests (snd (scrapeUrl2 parse cfg net u retryCount w)) = requests w"
    by (simp add: s)
  show "requests (snd (settleUrl2 parse cfg net u w)) = requests w"
    by (simp add: t)
  show "sleeps (snd (settleUrl2 parse cfg net u w)) = sleeps w"
    by (simp add: t)
  show "u \<in> set (loadProcessedUrls (nonMatchFile cfg) (snd (settleUrl2 parse cfg net u w)))"
    if "\<not> writeFails w (nonMatchFile cfg)"
    using that by (simp add: t saveProgress_load)
qed

text \<open>
  A URL of another host, on a network that would serve a full page: nothing is requested
  and the URL is the only entry of the non-matching ledger.
\<close>

theorem nontarget_no_request_witness:
  "\<not> isTargetUrl simple_url_parse CONFIG2 ''https://blog.example.org/post'' \<and>
   \<not> writeFails world0 (nonMatchFile CONFIG2) \<and>
   fst (settleUrl2 simple_url_parse CONFIG2 (serve pageA) ''https://blog.example.org/post'' world0) = None \<and>
   requests (snd (settleUrl2 simple_url_parse CONFIG2 (serve pageA) ''https://blog.example.org/post'' world0)) = [] \<and>
   loadProcessedUrls (nonMatchFile CONFIG2)
     (snd (settleUrl2 simple_url_parse CONFIG2 (serve pageA) ''https://blog.example.org/post'' world0))
     = [''https://blog.example.org/post'']"
proof -
  have p: "simple_url_parse ''https://blog.example.org/post'' =
      Some \<lparr> protocol = ''https:'', hostname = ''blog.example.org'', pathname = ''/post'' \<rparr>"
    by (simp add: simple_url_parse_def is_alpha_def is_scheme_char_def lower_char_def)
  have nt: "\<not> isTargetUrl simple_url_parse CONFIG2 ''https://blog.example.org/post''"
    by (simp add: isTargetUrl_def p CONFIG2_def)
  have wf: "\<not> writeFails world0 (nonMatchFile CONFIG2)" by (simp add: world0_def)
  have l: "loadProcessedUrls (nonMatchFile CONFIG2)
      (saveProgress ''https://blog.example.org/post'' (nonMatchFile CONFIG2) world0)
      = [''https://blog.example.org/post'']"
    by (simp add: saveProgress_def loadProcessedUrls_def world0_def)
  have r: "requests world0 = []" by (simp add: world0_def)
  from nontarget_no_request [of simple_url_parse CONFIG2 "''https://blog.example.org/post''"
      "serve pageA" 0 world0 0] nt wf l r
  show ?thesis by simp
qed

section \<open>The completeness check\<close>

lemma js_or_empty: "js_or a b = [] \<longleftrightarrow> a = [] \<and> b = []"
  by (simp add: js_or_def)

lemma page_name_empty:
  "page_name pg = [] \<longleftrightarrow> h1_title_wrapper pg = [] \<and> h1_product_name pg = [] \<and> h1_first pg = []"
  by (simp add: page_name_def js_or_empty)

lemma page_sizeNo_empty:
  "page_sizeNo pg = [] \<longleftrightarrow> span_size_no pg = [] \<and> tire_size pg = [] \<and> product_size pg = []"
  by (simp add: page_sizeNo_def js_or_empty)

lemma scrapeTireData2_fields [simp]:
  "url (scrapeTireData2 pg u) = u"
  "name (scrapeTireData2 pg u) = page_name pg"
  "sizeNo (scrapeTireData2 pg u) = page_sizeNo pg"
  "price (scrapeTireData2 pg u) = calculateDiscountedPrice (page_price pg)"
  by (simp_all add: scrapeTireData2_def split: prod.splits)

lemma scrapeTireData1_fields:
  "scrapeTireData1 pg u = Inr td \<Longrightarrow>
   url td = u \<and> name td = page_name pg \<and> sizeNo td = page_sizeNo pg \<and> price td = page_price pg"
  by (auto simp: scrapeTireData1_def split: option.splits)

lemma axios_get_200:
  "net (length (requests w)) u = Response 200 pg \<Longrightarrow>
   axios_get net u w = (Inr (200, pg), w\<lparr>requests := requests w @ [u]\<rparr>)"
  by (simp add: axios_get_def)

lemma scrapeUrl2_try_200:
  assumes "isTargetUrl parse cfg u" "net (length (requests w)) u = Response 200 pg"
  shows "scrapeUrl2_try parse cfg net u w =
     (if page_name pg = [] \<or> page_sizeNo pg = []
      then (Inl EssentialDataMissing, w\<lparr>requests := requests w @ [u]\<rparr>)
      else (Inr (Some (scrapeTireData2 pg u)),
            saveProgress u (successFile cfg) (w\<lparr>requests := requests w @ [u]\<rparr>)))"
  using assms by (simp add: scrapeUrl2_try_def axios_get_200 Let_def)

lemma scrapeUrl1_try_200:
  assumes "net (length (requests w)) u = Response 200 pg" "scrapeTireData1 pg u = Inr td"
  shows "scrapeUrl1_try cfg net u w =
     (if name td = [] \<or> sizeNo td = []
      then (Inl EssentialDataMissing, w\<lparr>requests := requests w @ [u]\<rparr>)
      else (Inr td, w\<lparr>requests := requests w @ [u]\<rparr>))"
  using assms by (simp add: scrapeUrl1_try_def axios_get_200)

text \<open>
  C1 (as amended). On a page fetched with status 200, both variants raise the
  incomplete-extraction error exactly when the name or the size of the scraped record is
  empty, that is when at least one of the two is empty after all its selector fallbacks;
  the record is returned exactly when both are non-empty. (In the spreadsheet variant
  this is for a page on which \<open>scrapeTireData\<close> itself does not throw.)
\<close>

theorem incomplete_when_either_missing:
  "(isTargetUrl parse cfg u \<and> net (length (requests w)) u = Response 200 pg \<longrightarrow>
      (fst (scrapeUrl2_try parse cfg net u w) = Inl EssentialDataMissing
         \<longleftrightarrow> name (scrapeTireData2 pg u) = [] \<or> sizeNo (scrapeTireData2 pg u) = []) \<and>
      (fst (scrapeUrl2_try parse cfg net u w) = Inr (Some (scrapeTireData2 pg u))
         \<longleftrightarrow> name (scrapeTireData2 pg u) \<noteq> [] \<and> sizeNo (scrapeTireData2 pg u) \<noteq> [])) \<and>
   (net (length (requests w)) u = Response 200 pg \<and> scrapeTireData1 pg u = Inr td \<longrightarrow>
      (fst (scrapeUrl1_try cfg net u w) = Inl EssentialDataMissing
         \<longleftrightarrow> name td = [] \<or> sizeNo td = []) \<and>
      (fst (scrapeUrl1_try cfg net u w) = Inr td \<longleftrightarrow> name td \<noteq> [] \<and> sizeNo td \<noteq> [])) \<and>
   (name (scrapeTireData2 pg u) = []
      \<longleftrightarrow> h1_title_wrapper pg = [] \<and> h1_product_name pg = [] \<and> h1_first pg = []) \<and>
   (sizeNo (scrapeTireData2 pg u) = []
      \<longleftrightarrow> span_size_no pg = [] \<and> tire_size pg = [] \<and> product_size pg = [])"
proof (intro conjI impI)
  assume a: "isTargetUrl parse cfg u \<and> net (length (requests w)) u = Response 200 pg"
  note t = scrapeUrl2_try_200 [of parse cfg u net w pg, OF conjunct1 [OF a] conjunct2 [OF a]]
  show "fst (scrapeUrl2_try parse cfg net u w) = Inl EssentialDataMissing
         \<longleftrightarrow> name (scrapeTireData2 pg u) = [] \<or> sizeNo (scrapeTireData2 pg u) = []"
    by (simp add: t)
  show "fst (scrapeUrl2_try parse cfg net u w) = Inr (Some (scrapeTireData2 pg u))
         \<longleftrightarrow> name (scrapeTireData2 pg u) \<noteq> [] \<and> sizeNo (scrapeTireData2 pg u) \<noteq> []"
    by (simp add: t)
next
  assume a: "net (length (requests w)) u = Response 200 pg \<and> scrapeTireData1 pg u = Inr td"
  note t = scrapeUrl1_try_200 [of net w u pg td cfg, OF conjunct1 [OF a] conjunct2 [OF a]]
  show "fst (scrapeUrl1_try cfg net u w) = Inl EssentialDataMissing
         \<longleftrightarrow> name td = [] \<or> sizeNo td = []"
    by (simp add: t)
  show "fst (scrapeUrl1_try cfg net u w) = Inr td \<longleftrightarrow> name td \<noteq> [] \<and> sizeNo td \<noteq> []"
    by (simp add: t)
next
  show "name (scrapeTireData2 pg u) = []
      \<longleftrightarrow> h1_title_wrapper pg = [] \<and> h1_product_name pg = [] \<and> h1_first pg = []"
    by (simp add: page_name_empty)
  show "sizeNo (scrapeTireData2 pg u) = []
      \<longleftrightarrow> span_size_no pg = [] \<and> tire_size pg = [] \<and> product_size pg = []"
    by (simp add: page_sizeNo_empty)
qed

lemma targetA_parse:
  "simple_url_parse targetA =
     Some \<lparr> protocol = ''https:'', hostname = ''www.pitstoparabia.com'', pathname = ''/a'' \<rparr>"
  by (simp add: targetA_def simple_url_parse_def is_alpha_def is_scheme_char_def lower_char_def)

lemma targetA_target: "isTargetUrl simple_url_parse CONFIG2 targetA"
  by (simp add: isTargetUrl_def targetA_parse CONFIG2_def)

text \<open>
  A page of a target URL with a name and no size.
\<close>

theorem incomplete_when_either_missing_witness:
  "isTargetUrl simple_url_parse CONFIG2 targetA \<and>
   serve pageNoSize (length (requests world0)) targetA = Response 200 pageNoSize \<and>
   name (scrapeTireData2 pageNoSize targetA) = ''Pirelli P Zero'' \<and>
   sizeNo (scrapeTireData2 pageNoSize targetA) = [] \<and>
   fst (scrapeUrl2_try simple_url_parse CONFIG2 (serve pageNoSize) targetA world0)
     = Inl EssentialDataMissing"
proof -
  have s: "serve pageNoSize (length (requests world0)) targetA = Response 200 pageNoSize"
    by (simp add: serve_def)
  have n: "name (scrapeTireData2 pageNoSize targetA) = ''Pirelli P Zero''"
    by (simp add: page_name_def js_or_def pageNoSize_def pageA_def)
  have z: "sizeNo (scrapeTireData2 pageNoSize targetA) = []"
    by (simp add: page_sizeNo_def js_or_def pageNoSize_def pageA_def)
  from incomplete_when_either_missing [of simple_url_parse CONFIG2 targetA "serve pageNoSize"
      world0 pageNoSize] targetA_target s z
  have "fst (scrapeUrl2_try simple_url_parse CONFIG2 (serve pageNoSize) targetA world0)
     = Inl EssentialDataMissing" by blast
  with targetA_target s n z show ?thesis by blast
qed

text \<open>
  The claim as stated fails: the record of that page has a non-empty name, one of the two
  mandatory fields, and both variants declare it incomplete.
\<close>

theorem incomplete_only_if_both_empty_counterexample:
  "name (scrapeTireData2 pageNoSize targetA) \<noteq> [] \<and>
   fst (scrapeUrl2_try simple_url_parse CONFIG2 (serve pageNoSize) targetA world0)
     = Inl EssentialDataMissing \<and>
   (\<exists>td. scrapeTireData1 pageNoSize targetA = Inr td \<and> name td \<noteq> []) \<and>
   fst (scrapeUrl1_try CONFIG1 (serve pageNoSize) targetA world0) = Inl EssentialDataMissing"
proof -
  have s: "serve pageNoSize (length (requests world0)) targetA = Response 200 pageNoSize"
    by (simp add: serve_def)
  have n: "page_name pageNoSize = ''Pirelli P Zero''" "page_sizeNo pageNoSize = []"
    by (simp_all add: page_name_def page_sizeNo_def js_or_def pageNoSize_def pageA_def)
  have 2: "fst (scrapeUrl2_try simple_url_parse CONFIG2 (serve pageNoSize) targetA world0)
     = Inl EssentialDataMissing"
    by (simp add: scrapeUrl2_try_200 [of simple_url_parse CONFIG2 targetA "serve pageNoSize" world0 pageNoSize, OF targetA_target s] n)
  obtain td where td: "scrapeTireData1 pageNoSize targetA = Inr td"
    by (simp add: scrapeTireData1_def split_colon_1_def pageNoSize_def pageA_def)
  have f: "name td = ''Pirelli P Zero''" "sizeNo td = []"
    using scrapeTireData1_fields [OF td] n by simp_all
  have 1: "fst (scrapeUrl1_try CONFIG1 (serve pageNoSize) targetA world0) = Inl EssentialDataMissing"
    by (simp add: scrapeUrl1_try_200 [of "serve pageNoSize" world0 targetA pageNoSize td CONFIG1, OF s td] f)
  show ?thesis using n 2 td f 1 by simp
qed

section \<open>Success without a stored record\<close>

lemma scrapeUrl2_success:
  assumes "isTargetUrl parse cfg u" "net (length (requests w)) u = Response 200 pg"
    "page_name pg \<noteq> []" "page_sizeNo pg \<noteq> []"
  shows "scrapeUrl2 parse cfg net u rc w =
     (Inr (Some (scrapeTireData2 pg u)),
      saveProgress u (successFile cfg) (w\<lparr>requests := requests w @ [u]\<rparr>))"
  using assms(3,4)
  by (simp add: scrapeUrl2.simps [of parse cfg net u rc w]
      scrapeUrl2_try_200 [of parse cfg u net w pg, OF assms(1,2)])

lemma calculateDiscountedPrice_empty: "calculateDiscountedPrice [] = []"
  by (simp add: calculateDiscountedPrice_def discounted_def)

lemma validNewData2_price: "r \<in> set (validNewData2 newData) \<Longrightarrow> price r \<noteq> []"
  by (simp add: validNewData2_def)

lemma saveData2_new_price:
  assumes "r \<in> set (loadExistingData (saveData2 cfg newData finalSave w))"
  shows "r \<in> set (loadExistingData w) \<or> price r \<noteq> []"
proof -
  obtain added where a: "loadExistingData (saveData2 cfg newData finalSave w) = loadExistingData w @ added"
    "set added \<subseteq> set (validNewData2 newData)"
    using saveData2_extends by blast
  from assms a(1) have "r \<in> set (loadExistingData w) \<or> r \<in> set added" by simp
  then show ?thesis using a(2) validNewData2_price by blast
qed

lemma flushes2_new_price:
  "r \<in> set (loadExistingData (flushes2 cfg ops w)) \<Longrightarrow>
   r \<in> set (loadExistingData w) \<or> price r \<noteq> []"
proof (induction ops arbitrary: w)
  case Nil
  then show ?case by simp
next
  case (Cons a ops)
  obtain newData finalSave where a: "a = (newData, finalSave)" by (cases a)
  from Cons.prems have "r \<in> set (loadExistingData (flushes2 cfg ops (saveData2 cfg newData finalSave w)))"
    by (simp add: a)
  then have "r \<in> set (loadExistingData (saveData2 cfg newData finalSave w)) \<or> price r \<noteq> []"
    by (rule Cons.IH)
  then show ?case using saveData2_new_price by blast
qed

lemma urlsToProcess2_skips:
  "u \<in> set (loadProcessedUrls (successFile cfg) w) \<Longrightarrow> u \<notin> set (urlsToProcess2 cfg urls w)"
  by (simp add: urlsToProcess2_def)

text \<open>
  C10. In the sitemap variant \<open>saveData\<close> keeps a new record only if url, name, sizeNo
  and price are all non-empty, while \<open>scrapeUrl\<close> marks a URL as a success once name
  and sizeNo are non-empty. So every record the filter keeps passes the success test,
  but not the other way round: for a target URL whose page yields a name and a size and
  no price, \<open>scrapeUrl\<close> returns the record and the success ledger holds the URL,
  so that the filter of \<open>runScraper\<close> leaves the URL out of the next run; the record
  fails the persistence filter, a flush of it leaves the store as it is, and no sequence
  of flushes ever adds it.
\<close>

theorem success_without_record:
  assumes "isTargetUrl parse cfg u" "net (length (requests w)) u = Response 200 pg"
    and "page_name pg \<noteq> []" "page_sizeNo pg \<noteq> []" "page_price pg = []"
    and "\<not> writeFails w (successFile cfg)"
  shows "fst (scrapeUrl2 parse cfg net u 0 w) = Inr (Some (scrapeTireData2 pg u)) \<and>
    essential (scrapeTireData2 pg u) \<and> price (scrapeTireData2 pg u) = [] \<and>
    u \<in> set (loadProcessedUrls (successFile cfg) (snd (scrapeUrl2 parse cfg net u 0 w))) \<and>
    u \<notin> set (urlsToProcess2 cfg urls (snd (scrapeUrl2 parse cfg net u 0 w))) \<and>
    validNewData2 [scrapeTireData2 pg u] = [] \<and>
    loadExistingData (saveData2 cfg [scrapeTireData2 pg u] finalSave w') = loadExistingData w' \<and>
    (scrapeTireData2 pg u \<notin> set (loadExistingData w') \<longrightarrow>
       scrapeTireData2 pg u \<notin> set (loadExistingData (flushes2 cfg ops w'))) \<and>
    (r \<in> set (validNewData2 newData) \<longrightarrow> essential r)"
proof -
  let ?td = "scrapeTireData2 pg u"
  have s: "scrapeUrl2 parse cfg net u 0 w =
      (Inr (Some ?td), saveProgress u (successFile cfg) (w\<lparr>requests := requests w @ [u]\<rparr>))"
    using assms(1-4) by (rule scrapeUrl2_success)
  have p: "price ?td = []" using assms(5) by (simp add: calculateDiscountedPrice_empty)
  have e: "essential ?td" using assms(3,4) by simp
  have l: "u \<in> set (loadProcessedUrls (successFile cfg) (snd (scrapeUrl2 parse cfg net u 0 w)))"
    using assms(6) by (simp add: s saveProgress_load)
  have v: "validNewData2 [?td] = []" using p by (simp add: validNewData2_def)
  have st: "loadExistingData (saveData2 cfg [?td] finalSave w') = loadExistingData w'"
    by (simp add: saveData2_store v)
  have never: "?td \<notin> set (loadExistingData (flushes2 cfg ops w'))"
    if "?td \<notin> set (loadExistingData w')"
    using that p flushes2_new_price [of ?td cfg ops w'] by blast
  have f: "essential r" if "r \<in> set (validNewData2 newData)"
    using that by (simp add: validNewData2_def)
  show ?thesis
    using s p e l v st never f urlsToProcess2_skips [OF l] by simp
qed

text \<open>
  A page with a name, a size and no price, served for a URL of the target host.
\<close>

theorem success_without_record_witness:
  "isTargetUrl simple_url_parse CONFIG2 targetA \<and>
   serve pageNoPrice (length (requests world0)) targetA = Response 200 pageNoPrice \<and>
   page_name pageNoPrice = ''Pirelli P Zero'' \<and> page_sizeNo pageNoPrice = ''205/55R16'' \<and>
   page_price pageNoPrice = [] \<and> \<not> writeFails world0 (successFile CONFIG2) \<and>
   loadProcessedUrls (successFile CONFIG2)
     (snd (scrapeUrl2 simple_url_parse CONFIG2 (serve pageNoPrice) targetA 0 world0)) = [targetA] \<and>
   urlsToProcess2 CONFIG2 [targetA]
     (snd (scrapeUrl2 simple_url_parse CONFIG2 (serve pageNoPrice) targetA 0 world0)) = [] \<and>
   loadExistingData (saveData2 CONFIG2 [scrapeTireData2 pageNoPrice targetA] True world0) = []"
proof -
  have s: "serve pageNoPrice (length (requests world0)) targetA = Response 200 pageNoPrice"
    by (simp add: serve_def)
  have n: "page_name pageNoPrice = ''Pirelli P Zero''" "page_sizeNo pageNoPrice = ''205/55R16''"
    "page_price pageNoPrice = []"
    by (simp_all add: page_name_def page_sizeNo_def page_price_def js_or_def pageNoPrice_def pageA_def)
  have n': "page_name pageNoPrice \<noteq> []" "page_sizeNo pageNoPrice \<noteq> []"
    by (simp_all add: n)
  have wf: "\<not> writeFails world0 (successFile CONFIG2)" by (simp add: world0_def)
  note t = success_without_record [of simple_url_parse CONFIG2 targetA "serve pageNoPrice" world0
      pageNoPrice "[targetA]" True world0 "[]" tyreA "[]", OF targetA_target s n' n(3) wf]
  have sc: "scrapeUrl2 simple_url_parse CONFIG2 (serve pageNoPrice) targetA 0 world0 =
      (Inr (Some (scrapeTireData2 pageNoPrice targetA)),
       saveProgress targetA (successFile CONFIG2) (world0\<lparr>requests := requests world0 @ [targetA]\<rparr>))"
    using targetA_target s n' by (rule scrapeUrl2_success)
  have l: "loadProcessedUrls (successFile CONFIG2)
     (snd (scrapeUrl2 simple_url_parse CONFIG2 (serve pageNoPrice) targetA 0 world0)) = [targetA]"
    by (simp add: sc saveProgress_load) (simp add: loadProcessedUrls_def world0_def)
  have u: "urlsToProcess2 CONFIG2 [targetA]
     (snd (scrapeUrl2 simple_url_parse CONFIG2 (serve pageNoPrice) targetA 0 world0)) = []"
    using t by (simp add: urlsToProcess2_def)
  have e: "loadExistingData (saveData2 CONFIG2 [scrapeTireData2 pageNoPrice targetA] True world0) = []"
    using t by (simp add: loadExistingData_def world0_def)
  from targetA_target s n wf l u e show ?thesis by simp
qed

section \<open>Retrying a failing URL\<close>

lemma scrapeUrl2_try_fail_world:
  assumes "isTargetUrl parse cfg u" "isl (fst (scrapeUrl2_try parse cfg net u w))"
  shows "snd (scrapeUrl2_try parse cfg net u w) = w\<lparr>requests := requests w @ [u]\<rparr>"
  using assms
  by (auto simp: scrapeUrl2_try_def axios_get_def Let_def split: response.splits if_splits)

lemma scrapeUrl1_try_fail_world:
  "snd (scrapeUrl1_try cfg net u w) = w\<lparr>requests := requests w @ [u]\<rparr>"
  by (auto simp: scrapeUrl1_try_def axios_get_def Let_def split: response.splits sum.splits)

lemma world_step:
  "sleep ms (w\<lparr>requests := requests w @ [u]\<rparr>)
     \<lparr>requests := requests (sleep ms (w\<lparr>requests := requests w @ [u]\<rparr>)) @ replicate n u,
      sleeps := sleeps (sleep ms (w\<lparr>requests := requests w @ [u]\<rparr>)) @ ds\<rparr>
   = w\<lparr>requests := requests w @ replicate (Suc n) u, sleeps := sleeps w @ ms # ds\<rparr>"
  by (simp add: sleep_def replicate_app_Cons_same)

lemma scrapeUrl2_all_fail:
  assumes t: "isTargetUrl parse cfg u"
    and f: "\<forall>w'. isl (fst (scrapeUrl2_try parse cfg net u w'))"
  shows "rc \<le> maxRetries cfg \<Longrightarrow>
    isl (fst (scrapeUrl2 parse cfg net u rc w)) \<and>
    snd (scrapeUrl2 parse cfg net u rc w) =
      saveProgress u (failedFile cfg)
        (w\<lparr>requests := requests w @ replicate (maxRetries cfg - rc + 1) u,
           sleeps := sleeps w @ map (\<lambda>i. 1000 * (i + 1)) [rc..<maxRetries cfg]\<rparr>)"
proof (induction "maxRetries cfg - rc" arbitrary: rc w)
  case 0
  then have rc: "rc = maxRetries cfg" by simp
  obtain e w1 where tr: "scrapeUrl2_try parse cfg net u w = (Inl e, w1)"
    using f [rule_format, of w] by (cases "scrapeUrl2_try parse cfg net u w") (auto simp: isl_def)
  have w1: "w1 = w\<lparr>requests := requests w @ [u]\<rparr>"
    using scrapeUrl2_try_fail_world [OF t, of net w] tr by simp
  have nlt: "\<not> rc < maxRetries cfg" using rc by simp
  have "scrapeUrl2 parse cfg net u rc w = (Inl e, saveProgress u (failedFile cfg) w1)"
    using t nlt by (simp add: scrapeUrl2.simps [of parse cfg net u rc w] tr retryBudget2_def)
  then show ?case by (simp add: w1 rc)
next
  case (Suc n)
  then have lt: "rc < maxRetries cfg" and n: "n = maxRetries cfg - (rc + 1)"
    and le: "rc + 1 \<le> maxRetries cfg" by simp_all
  obtain e w1 where tr: "scrapeUrl2_try parse cfg net u w = (Inl e, w1)"
    using f [rule_format, of w] by (cases "scrapeUrl2_try parse cfg net u w") (auto simp: isl_def)
  have w1: "w1 = w\<lparr>requests := requests w @ [u]\<rparr>"
    using scrapeUrl2_try_fail_world [OF t, of net w] tr by simp
  have step: "scrapeUrl2 parse cfg net u rc w =
      scrapeUrl2 parse cfg net u (rc + 1) (sleep (1000 * (rc + 1)) w1)"
    using t lt by (simp add: scrapeUrl2.simps [of parse cfg net u rc w] tr retryBudget2_def)
  have cnt: "maxRetries cfg - rc + 1 = Suc (maxRetries cfg - (rc + 1) + 1)"
    using lt by simp
  have up: "[rc..<maxRetries cfg] = rc # [rc + 1..<maxRetries cfg]"
    using lt by (simp add: upt_conv_Cons)
  show ?case
    unfolding step using Suc.hyps(1) [OF n le, of "sleep (1000 * (rc + 1)) w1"]
    unfolding w1 world_step cnt up by simp
qed

lemma scrapeUrl1_all_fail:
  assumes f: "\<forall>w'. isl (fst (scrapeUrl1_try cfg net u w'))"
  shows "rc \<le> maxRetries cfg \<Longrightarrow>
    isl (fst (scrapeUrl1 cfg net u rc w)) \<and>
    snd (scrapeUrl1 cfg net u rc w) =
      w\<lparr>requests := requests w @ replicate (maxRetries cfg - rc + 1) u,
        sleeps := sleeps w @ map (\<lambda>i. 2000 * (i + 1)) [rc..<maxRetries cfg]\<rparr>"
proof (induction "maxRetries cfg - rc" arbitrary: rc w)
  case 0
  then have rc: "rc = maxRetries cfg" by simp
  obtain e w1 where tr: "scrapeUrl1_try cfg net u w = (Inl e, w1)"
    using f [rule_format, of w] by (cases "scrapeUrl1_try cfg net u w") (auto simp: isl_def)
  have w1: "w1 = w\<lparr>requests := requests w @ [u]\<rparr>"
    using scrapeUrl1_try_fail_world [of cfg net u w] tr by simp
  have nlt: "\<not> rc < maxRetries cfg" using rc by simp
  have "scrapeUrl1 cfg net u rc w = (Inl e, w1)"
    using nlt by (simp add: scrapeUrl1.simps [of cfg net u rc w] tr)
  then show ?case by (simp add: w1 rc)
next
  case (Suc n)
  then have lt: "rc < maxRetries cfg" and n: "n = maxRetries cfg - (rc + 1)"
    and le: "rc + 1 \<le> maxRetries cfg" by simp_all
  obtain e w1 where tr: "scrapeUrl1_try cfg net u w = (Inl e, w1)"
    using f [rule_format, of w] by (cases "scrapeUrl1_try cfg net u w") (auto simp: isl_def)
  have w1: "w1 = w\<lparr>requests := requests w @ [u]\<rparr>"
    using scrapeUrl1_try_fail_world [of cfg net u w] tr by simp
  have step: "scrapeUrl1 cfg net u rc w =
      scrapeUrl1 cfg net u (rc + 1) (sleep (2000 * (rc + 1)) w1)"
    using lt by (simp add: scrapeUrl1.simps [of cfg net u rc w] tr)
  have cnt: "maxRetries cfg - rc + 1 = Suc (maxRetries cfg - (rc + 1) + 1)"
    using lt by simp
  have up: "[rc..<maxRetries cfg] = rc # [rc + 1..<maxRetries cfg]"
    using lt by (simp add: upt_conv_Cons)
  show ?case
    unfolding step using Suc.hyps(1) [OF n le, of "sleep (2000 * (rc + 1)) w1"]
    unfolding w1 world_step cnt up by simp
qed

text \<open>One round of the outer loop on a URL that always fails.\<close>

lemma scrapeUrl1_all_fail_0:
  assumes f: "\<forall>w'. isl (fst (scrapeUrl1_try cfg net u w'))"
  obtains e w1 where "scrapeUrl1 cfg net u 0 w = (Inl e, w1)"
    "requests w1 = requests w @ replicate (maxRetries cfg + 1) u"
    "ledgers w1 = ledgers w" "writeFails w1 = writeFails w"
proof -
  have a: "isl (fst (scrapeUrl1 cfg net u 0 w))"
    "snd (scrapeUrl1 cfg net u 0 w) =
      w\<lparr>requests := requests w @ replicate (maxRetries cfg - 0 + 1) u,
        sleeps := sleeps w @ map (\<lambda>i. 2000 * (i + 1)) [0..<maxRetries cfg]\<rparr>"
    using scrapeUrl1_all_fail [OF f, of 0 w] by simp_all
  obtain r w1 where s: "scrapeUrl1 cfg net u 0 w = (r, w1)" by (cases "scrapeUrl1 cfg net u 0 w")
  from a(1) s obtain e where "r = Inl e" by (cases r) simp_all
  moreover from a(2) s have "requests w1 = requests w @ replicate (maxRetries cfg + 1) u"
    "ledgers w1 = ledgers w" "writeFails w1 = writeFails w" by simp_all
  ultimately show thesis using s that by blast
qed

lemma attemptLoop1_all_fail:
  assumes f: "\<forall>w'. isl (fst (scrapeUrl1_try cfg net u w'))"
  shows "attempts < maxRetries cfg \<Longrightarrow> \<not> writeFails w (failedFile cfg) \<Longrightarrow>
    fst (attemptLoop1 cfg net u attempts False newTireData w) = False \<and>
    fst (snd (attemptLoop1 cfg net u attempts False newTireData w)) = newTireData \<and>
    requests (snd (snd (attemptLoop1 cfg net u attempts False newTireData w))) =
      requests w @ replicate ((maxRetries cfg - attempts) * (maxRetries cfg + 1)) u \<and>
    u \<in> set (loadProcessedUrls (failedFile cfg)
      (snd (snd (attemptLoop1 cfg net u attempts False newTireData w))))"
proof (induction "maxRetries cfg - attempts" arbitrary: attempts w)
  case 0
  then show ?case by simp
next
  case (Suc n)
  obtain e w1 where s: "scrapeUrl1 cfg net u 0 w = (Inl e, w1)"
    and w1: "requests w1 = requests w @ replicate (maxRetries cfg + 1) u"
      "ledgers w1 = ledgers w" "writeFails w1 = writeFails w"
    using scrapeUrl1_all_fail_0 [OF f] by blast
  show ?case
  proof (cases "maxRetries cfg \<le> attempts + 1")
    case True
    then have last: "\<not> (attempts + 1 < maxRetries cfg \<and> \<not> False)" by simp
    have "attemptLoop1 cfg net u attempts False newTireData w =
        attemptLoop1 cfg net u (attempts + 1) False newTireData (saveProgress u (failedFile cfg) w1)"
      using Suc.prems(1) True by (simp add: attemptLoop1.simps [of cfg net u attempts] s)
    also have "\<dots> = (False, newTireData, saveProgress u (failedFile cfg) w1)"
      using last by (subst attemptLoop1.simps) (simp only: if_not_P if_False)
    finally have r: "attemptLoop1 cfg net u attempts False newTireData w =
        (False, newTireData, saveProgress u (failedFile cfg) w1)" .
    have one: "maxRetries cfg - attempts = 1" using True Suc.prems(1) by simp
    have "u \<in> set (loadProcessedUrls (failedFile cfg) (saveProgress u (failedFile cfg) w1))"
      using Suc.prems(2) w1(3) by (simp add: saveProgress_load)
    then show ?thesis by (simp add: r w1(1) one)
  next
    case False
    then have lt: "attempts + 1 < maxRetries cfg" by simp
    have n: "n = maxRetries cfg - (attempts + 1)" using Suc.hyps(2) by simp
    let ?w2 = "sleep (3000 * (attempts + 1)) w1"
    have step: "attemptLoop1 cfg net u attempts False newTireData w =
        attemptLoop1 cfg net u (attempts + 1) False newTireData ?w2"
      using Suc.prems(1) False by (simp add: attemptLoop1.simps [of cfg net u attempts] s)
    have wf: "\<not> writeFails ?w2 (failedFile cfg)"
      using Suc.prems(2) w1(3) by (simp add: sleep_def)
    have rq: "requests ?w2 = requests w @ replicate (maxRetries cfg + 1) u"
      using w1(1) by (simp add: sleep_def)
    have cnt: "(maxRetries cfg - attempts) * (maxRetries cfg + 1) =
        (maxRetries cfg + 1) + (maxRetries cfg - (attempts + 1)) * (maxRetries cfg + 1)"
    proof -
      have "maxRetries cfg - attempts = Suc (maxRetries cfg - (attempts + 1))"
        using lt by simp
      then show ?thesis by simp
    qed
    let ?r = "attemptLoop1 cfg net u (attempts + 1) False newTireData ?w2"
    have ih: "fst ?r = False" "fst (snd ?r) = newTireData"
      "requests (snd (snd ?r)) =
         requests ?w2 @ replicate ((maxRetries cfg - (attempts + 1)) * (maxRetries cfg + 1)) u"
      "u \<in> set (loadProcessedUrls (failedFile cfg) (snd (snd ?r)))"
      using Suc.hyps(1) [OF n lt wf] by blast+
    have "requests (snd (snd ?r)) =
        requests w @ replicate ((maxRetries cfg - attempts) * (maxRetries cfg + 1)) u"
      unfolding ih(3) rq cnt by (simp only: replicate_add append_assoc)
    with ih(1,2,4) show ?thesis unfolding step by blast
  qed
qed

lemma offline_fails2: "\<forall>w'. isl (fst (scrapeUrl2_try simple_url_parse CONFIG2 offline targetA w'))"
  by (simp add: scrapeUrl2_try_def targetA_target axios_get_def offline_def)

lemma offline_fails1: "\<forall>w'. isl (fst (scrapeUrl1_try CONFIG1 offline targetA w'))"
  by (simp add: scrapeUrl1_try_def axios_get_def offline_def)

text \<open>
  C2 (as amended). With \<open>maxRetries = 3\<close>, on a URL whose every fetch-and-extract
  attempt fails: in the sitemap variant \<open>scrapeUrl\<close> issues exactly 4 requests for a
  target URL (1 initial and 3 retries, after delays of 1, 2 and 3 seconds) and then
  enters the URL in the failed ledger. In the spreadsheet variant one call of
  \<open>scrapeUrl\<close> issues 4 requests and leaves the ledgers alone; the loop of
  \<open>runScraper\<close> makes 3 such calls, so that 12 requests are issued before the URL is
  entered in the failed ledger.
\<close>

theorem retry_attempts:
  assumes "maxRetries cfg = 3" "\<not> writeFails w (failedFile cfg)"
  shows "(isTargetUrl parse cfg u \<and> (\<forall>w'. isl (fst (scrapeUrl2_try parse cfg net u w'))) \<longrightarrow>
      isl (fst (scrapeUrl2 parse cfg net u 0 w)) \<and>
      requests (snd (scrapeUrl2 parse cfg net u 0 w)) = requests w @ [u, u, u, u] \<and>
      sleeps (snd (scrapeUrl2 parse cfg net u 0 w)) = sleeps w @ [1000, 2000, 3000] \<and>
      u \<in> set (loadProcessedUrls (failedFile cfg) (snd (scrapeUrl2 parse cfg net u 0 w)))) \<and>
    ((\<forall>w'. isl (fst (scrapeUrl1_try cfg net u w'))) \<longrightarrow>
      isl (fst (scrapeUrl1 cfg net u 0 w)) \<and>
      requests (snd (scrapeUrl1 cfg net u 0 w)) = requests w @ [u, u, u, u] \<and>
      ledgers (snd (scrapeUrl1 cfg net u 0 w)) = ledgers w \<and>
      \<not> fst (attemptLoop1 cfg net u 0 False newTireData w) \<and>
      requests (snd (snd (attemptLoop1 cfg net u 0 False newTireData w))) =
        requests w @ replicate 12 u \<and>
      u \<in> set (loadProcessedUrls (failedFile cfg)
        (snd (snd (attemptLoop1 cfg net u 0 False newTireData w)))))"
proof (intro conjI impI)
  assume a: "isTargetUrl parse cfg u \<and> (\<forall>w'. isl (fst (scrapeUrl2_try parse cfg net u w')))"
  have up: "[0..<3] = [0, 1, 2::nat]" by (simp add: upt_conv_Cons)
  have rep4: "replicate 4 u = [u, u, u, u]" by (simp add: numeral_eq_Suc)
  have r: "isl (fst (scrapeUrl2 parse cfg net u 0 w))"
    "snd (scrapeUrl2 parse cfg net u 0 w) =
      saveProgress u (failedFile cfg)
        (w\<lparr>requests := requests w @ [u, u, u, u], sleeps := sleeps w @ [1000, 2000, 3000]\<rparr>)"
    using scrapeUrl2_all_fail [OF conjunct1 [OF a] conjunct2 [OF a], of 0 w] assms(1)
    by (simp_all add: up rep4)
  show "isl (fst (scrapeUrl2 parse cfg net u 0 w))" by (rule r(1))
  show "requests (snd (scrapeUrl2 parse cfg net u 0 w)) = requests w @ [u, u, u, u]"
    by (simp add: r(2))
  show "sleeps (snd (scrapeUrl2 parse cfg net u 0 w)) = sleeps w @ [1000, 2000, 3000]"
    by (simp add: r(2))
  show "u \<in> set (loadProcessedUrls (failedFile cfg) (snd (scrapeUrl2 parse cfg net u 0 w)))"
    using assms(2) by (simp add: r(2) saveProgress_load)
next
  assume f: "\<forall>w'. isl (fst (scrapeUrl1_try cfg net u w'))"
  have up: "[0..<3] = [0, 1, 2::nat]" by (simp add: upt_conv_Cons)
  have rep4: "replicate 4 u = [u, u, u, u]" by (simp add: numeral_eq_Suc)
  have r: "isl (fst (scrapeUrl1 cfg net u 0 w))"
    "snd (scrapeUrl1 cfg net u 0 w) =
      w\<lparr>requests := requests w @ [u, u, u, u], sleeps := sleeps w @ [2000, 4000, 6000]\<rparr>"
    using scrapeUrl1_all_fail [OF f, of 0 w] assms(1)
    by (simp_all add: up rep4)
  show "isl (fst (scrapeUrl1 cfg net u 0 w))" by (rule r(1))
  show "requests (snd (scrapeUrl1 cfg net u 0 w)) = requests w @ [u, u, u, u]"
    by (simp add: r(2))
  show "ledgers (snd (scrapeUrl1 cfg net u 0 w)) = ledgers w"
    by (simp add: r(2))
  have lt: "0 < maxRetries cfg" using assms(1) by simp
  note l = attemptLoop1_all_fail [OF f lt assms(2), of newTireData]
  show "\<not> fst (attemptLoop1 cfg net u 0 False newTireData w)"
    using l by simp
  show "requests (snd (snd (attemptLoop1 cfg net u 0 False newTireData w))) =
        requests w @ replicate 12 u"
    using l assms(1) by simp
  show "u \<in> set (loadProcessedUrls (failedFile cfg)
        (snd (snd (attemptLoop1 cfg net u 0 False newTireData w))))"
    using l by blast
qed

text \<open>
  A target URL on a network that never answers, sitemap variant.
\<close>

theorem retry_attempts_witness:
  "maxRetries CONFIG2 = 3 \<and> \<not> writeFails world0 (failedFile CONFIG2) \<and>
   isTargetUrl simple_url_parse CONFIG2 targetA \<and>
   (\<forall>w'. isl (fst (scrapeUrl2_try simple_url_parse CONFIG2 offline targetA w'))) \<and>
   requests (snd (scrapeUrl2 simple_url_parse CONFIG2 offline targetA 0 world0))
     = [targetA, targetA, targetA, targetA] \<and>
   sleeps (snd (scrapeUrl2 simple_url_parse CONFIG2 offline targetA 0 world0)) = [1000, 2000, 3000] \<and>
   targetA \<in> set (loadProcessedUrls (failedFile CONFIG2)
     (snd (scrapeUrl2 simple_url_parse CONFIG2 offline targetA 0 world0)))"
proof -
  have m: "maxRetries CONFIG2 = 3" by (simp add: CONFIG2_def)
  have wf: "\<not> writeFails world0 (failedFile CONFIG2)" by (simp add: world0_def)
  have z: "requests world0 = []" "sleeps world0 = []" by (simp_all add: world0_def)
  from retry_attempts [OF m wf, of simple_url_parse targetA offline "[]"]
    targetA_target offline_fails2
  have "requests (snd (scrapeUrl2 simple_url_parse CONFIG2 offline targetA 0 world0))
      = requests world0 @ [targetA, targetA, targetA, targetA]"
    "sleeps (snd (scrapeUrl2 simple_url_parse CONFIG2 offline targetA 0 world0))
      = sleeps world0 @ [1000, 2000, 3000]"
    "targetA \<in> set (loadProcessedUrls (failedFile CONFIG2)
     (snd (scrapeUrl2 simple_url_parse CONFIG2 offline targetA 0 world0)))"
    by blast+
  with m wf targetA_target offline_fails2 z show ?thesis by simp
qed

text \<open>
  The claim as stated fails in the spreadsheet variant: on a network that never answers,
  the failed ledger is still empty after the 4 requests of the first \<open>scrapeUrl\<close>
  call, and 12 requests for the URL have been issued when \<open>runScraper\<close> enters it in
  the failed ledger.
\<close>

theorem four_attempts_counterexample:
  "maxRetries CONFIG1 = 3 \<and>
   (\<forall>w'. isl (fst (scrapeUrl1_try CONFIG1 offline targetA w'))) \<and>
   length (requests (snd (snd (attemptLoop1 CONFIG1 offline targetA 0 False [] world0)))) = 12 \<and>
   set (requests (snd (snd (attemptLoop1 CONFIG1 offline targetA 0 False [] world0)))) = {targetA} \<and>
   loadProcessedUrls (failedFile CONFIG1) (snd (scrapeUrl1 CONFIG1 offline targetA 0 world0)) = [] \<and>
   targetA \<in> set (loadProcessedUrls (failedFile CONFIG1)
     (snd (snd (attemptLoop1 CONFIG1 offline targetA 0 False [] world0))))"
proof -
  have m: "maxRetries CONFIG1 = 3" by (simp add: CONFIG1_def)
  have lt: "0 < maxRetries CONFIG1" by (simp add: m)
  have wf: "\<not> writeFails world0 (failedFile CONFIG1)" by (simp add: world0_def)
  have z: "requests world0 = []" "ledgers world0 = (\<lambda>_. None)" by (simp_all add: world0_def)
  note l = attemptLoop1_all_fail [OF offline_fails1 lt wf, of "[]"]
  have rq: "requests (snd (snd (attemptLoop1 CONFIG1 offline targetA 0 False [] world0)))
      = replicate 12 targetA"
    using l by (simp add: m z)
  have "snd (scrapeUrl1 CONFIG1 offline targetA 0 world0) =
      world0\<lparr>requests := requests world0 @ replicate (maxRetries CONFIG1 - 0 + 1) targetA,
        sleeps := sleeps world0 @ map (\<lambda>i. 2000 * (i + 1)) [0..<maxRetries CONFIG1]\<rparr>"
    using scrapeUrl1_all_fail [OF offline_fails1, of 0 world0] by simp
  then have e: "loadProcessedUrls (failedFile CONFIG1) (snd (scrapeUrl1 CONFIG1 offline targetA 0 world0)) = []"
    by (simp add: loadProcessedUrls_def z)
  from l have "targetA \<in> set (loadProcessedUrls (failedFile CONFIG1)
     (snd (snd (attemptLoop1 CONFIG1 offline targetA 0 False [] world0))))" by blast
  with m offline_fails1 rq e show ?thesis by simp
qed

end
